theory Spec2Isabelle
  imports Complex_Main "HOL-Library.Word" "HOL-Library.Stream" "HOL-Library.Multiset"
    "HOL-Library.Countable"
begin

section \<open>Common model of the JavaScript run time\<close>

text \<open>
  JavaScript strings are modelled as \<^typ>\<open>string\<close>. \<^verbatim>\<open>throw new Error(msg)\<close> is the value
  \<open>Inl (Error msg)\<close>; a \<^verbatim>\<open>TypeError\<close> of the run time is \<open>Inl TypeError\<close>.

  The secure random source \<^verbatim>\<open>crypto.getRandomValues\<close> is an explicit state: an
  infinite tape of bytes, of which every draw removes the head.
\<close>

type_synonym byte = "8 word"

type_synonym rng = "byte stream"

datatype error = Error string | TypeError

text \<open>\<^verbatim>\<open>const a = new Uint8Array(1); crypto.getRandomValues(a); a[0]\<close>\<close>

definition getRandomByte :: "rng \<Rightarrow> byte \<times> rng" where
  "getRandomByte r = (shd r, stl r)"

subsection \<open>Numbers\<close>

text \<open>
  A JavaScript number is \<^verbatim>\<open>NaN\<close>, an infinity or a finite value; the finite values are
  taken as reals, without rounding. The operations below are those the source applies,
  with their IEEE special cases.
\<close>

datatype jsnum = NaN | NegInf | PosInf | Num real

fun jsAdd :: "jsnum \<Rightarrow> jsnum \<Rightarrow> jsnum" where
  "jsAdd NaN y = NaN"
| "jsAdd x NaN = NaN"
| "jsAdd PosInf NegInf = NaN"
| "jsAdd NegInf PosInf = NaN"
| "jsAdd PosInf y = PosInf"
| "jsAdd x PosInf = PosInf"
| "jsAdd NegInf y = NegInf"
| "jsAdd x NegInf = NegInf"
| "jsAdd (Num a) (Num b) = Num (a + b)"

fun jsNeg :: "jsnum \<Rightarrow> jsnum" where
  "jsNeg NaN = NaN"
| "jsNeg NegInf = PosInf"
| "jsNeg PosInf = NegInf"
| "jsNeg (Num a) = Num (- a)"

definition jsSub :: "jsnum \<Rightarrow> jsnum \<Rightarrow> jsnum" where
  "jsSub x y = jsAdd x (jsNeg y)"

text \<open>The sign of a number that is not \<^verbatim>\<open>NaN\<close>: \<open>-1\<close>, \<open>0\<close> or \<open>1\<close>.\<close>

fun jsSign :: "jsnum \<Rightarrow> int" where
  "jsSign NaN = 0"
| "jsSign NegInf = -1"
| "jsSign PosInf = 1"
| "jsSign (Num a) = (if a < 0 then -1 else if a = 0 then 0 else 1)"

fun jsMul :: "jsnum \<Rightarrow> jsnum \<Rightarrow> jsnum" where
  "jsMul NaN y = NaN"
| "jsMul x NaN = NaN"
| "jsMul (Num a) (Num b) = Num (a * b)"
| "jsMul x y =
     (if jsSign x * jsSign y = 0 then NaN
      else if jsSign x * jsSign y < 0 then NegInf else PosInf)"

text \<open>Division by a finite, positive constant (the source divides by 4).\<close>

fun jsDivBy :: "jsnum \<Rightarrow> real \<Rightarrow> jsnum" where
  "jsDivBy (Num a) d = Num (a / d)"
| "jsDivBy x d = x"

fun jsLess :: "jsnum \<Rightarrow> jsnum \<Rightarrow> bool" where
  "jsLess NaN y = False"
| "jsLess x NaN = False"
| "jsLess x NegInf = False"
| "jsLess NegInf y = True"
| "jsLess PosInf y = False"
| "jsLess x PosInf = True"
| "jsLess (Num a) (Num b) = (a < b)"

text \<open>\<^verbatim>\<open>Math.min\<close> and \<^verbatim>\<open>Math.max\<close> return \<^verbatim>\<open>NaN\<close> when an argument is \<^verbatim>\<open>NaN\<close>.\<close>

fun Math_min :: "jsnum \<Rightarrow> jsnum \<Rightarrow> jsnum" where
  "Math_min NaN y = NaN"
| "Math_min x NaN = NaN"
| "Math_min x y = (if jsLess y x then y else x)"

fun Math_max :: "jsnum \<Rightarrow> jsnum \<Rightarrow> jsnum" where
  "Math_max NaN y = NaN"
| "Math_max x NaN = NaN"
| "Math_max x y = (if jsLess x y then y else x)"

fun Math_log2 :: "jsnum \<Rightarrow> jsnum" where
  "Math_log2 NaN = NaN"
| "Math_log2 NegInf = NaN"
| "Math_log2 PosInf = PosInf"
| "Math_log2 (Num a) = (if a < 0 then NaN else if a = 0 then NegInf else Num (log 2 a))"

text \<open>\<^verbatim>\<open>x || 1\<close> on an optional number: \<^verbatim>\<open>undefined\<close>, \<open>0\<close> and \<^verbatim>\<open>NaN\<close> are falsy.\<close>

fun orOne :: "jsnum option \<Rightarrow> jsnum" where
  "orOne None = Num 1"
| "orOne (Some NaN) = Num 1"
| "orOne (Some (Num a)) = (if a = 0 then Num 1 else Num a)"
| "orOne (Some x) = x"

section \<open>Password generator (password-generator.ts)\<close>

text \<open>
  The fields \<^verbatim>\<open>length\<close>, \<^verbatim>\<open>numberCount\<close> and \<^verbatim>\<open>specialCharCount\<close> have the type
  \<^verbatim>\<open>number\<close>; the two counts are optional.
\<close>

record PasswordOptions =
  length_opt :: jsnum
  includeUppercase :: bool
  includeLowercase :: bool
  includeNumbers :: bool
  includeSpecialChars :: bool
  numberCount :: "jsnum option"
  specialCharCount :: "jsnum option"
  excludeSimilar :: bool
  excludeAmbiguous :: bool

definition UPPERCASE :: string where
  "UPPERCASE = ''ABCDEFGHIJKLMNOPQRSTUVWXYZ''"

definition LOWERCASE :: string where
  "LOWERCASE = ''abcdefghijklmnopqrstuvwxyz''"

definition NUMBERS :: string where
  "NUMBERS = ''0123456789''"

definition SPECIAL_CHARS :: string where
  "SPECIAL_CHARS = ''!@#$%^&*()_+-=[]{}|;:,.<>?''"

text \<open>The source declares this constant (``characters that look similar'') and never reads it.\<close>

definition SIMILAR_CHARS :: string where
  "SIMILAR_CHARS = ''il1Lo0O''"

text \<open>
  The character class of the regular expression in the special-character branch:
  the sixteen characters \<^verbatim>\<open>{ } [ ] ( ) / \ ' " ` , ; . < >\<close>.
\<close>

definition ambiguousClass :: string where
  "ambiguousClass = ''{}[]()/'' @ [CHR 0x5C, CHR 0x27, CHR 0x22, CHR 0x60] @ '',;.<>''"

text \<open>\<^verbatim>\<open>str.replace(/[cls]/g, '')\<close>: every character of the class is deleted.\<close>

definition replaceClass :: "string \<Rightarrow> string \<Rightarrow> string" where
  "replaceClass cls str = filter (\<lambda>c. c \<notin> set cls) str"

text \<open>
  \<^verbatim>\<open>getRandomChar(str)\<close> returns \<^verbatim>\<open>str[array[0] % str.length]\<close>. On the empty
  string the index is \<^verbatim>\<open>NaN\<close> and the result \<^verbatim>\<open>undefined\<close>, here \<open>None\<close>.
\<close>

definition getRandomChar :: "string \<Rightarrow> rng \<Rightarrow> char option \<times> rng" where
  "getRandomChar str r =
     (let (b, r') = getRandomByte r
      in ((if str = [] then None else Some (str ! (unat b mod length str))), r'))"

text \<open>\<^verbatim>\<open>s += x\<close> for a one-character string or \<^verbatim>\<open>undefined\<close>.\<close>

fun strAppend :: "string \<Rightarrow> char option \<Rightarrow> string" where
  "strAppend s (Some c) = s @ [c]"
| "strAppend s None = s @ ''undefined''"

text \<open>
  \<^verbatim>\<open>for (let i = 0; i < n; i++) { acc += getRandomChar(chars); }\<close>, the loop of the
  number branch, of the special-character branch and of the fill, from the value \<open>i\<close> of
  its counter on. The bound \<open>n\<close> is a number: on \<^verbatim>\<open>Infinity\<close> the loop does not end, and
  the result is \<open>None\<close>.
\<close>

partial_function (option) drawLoop ::
  "nat \<Rightarrow> jsnum \<Rightarrow> string \<Rightarrow> string \<Rightarrow> rng \<Rightarrow> (string \<times> rng) option" where
  "drawLoop i n chars acc r =
     (if jsLess (Num (real i)) n
      then drawLoop (Suc i) n chars (strAppend acc (fst (getRandomChar chars r)))
             (snd (getRandomChar chars r))
      else Some (acc, r))"

text \<open>
  The alphabets of the four classes (the locals \<^verbatim>\<open>upperChars\<close>, \<^verbatim>\<open>lowerChars\<close>,
  \<^verbatim>\<open>numberChars\<close> and \<^verbatim>\<open>specialChars\<close>), after the exclusions the source applies.
\<close>

definition upperChars :: "PasswordOptions \<Rightarrow> string" where
  "upperChars options =
     (if excludeSimilar options then replaceClass ''IL'' UPPERCASE else UPPERCASE)"

definition lowerChars :: "PasswordOptions \<Rightarrow> string" where
  "lowerChars options =
     (if excludeSimilar options then replaceClass ''il'' LOWERCASE else LOWERCASE)"

definition numberChars :: "PasswordOptions \<Rightarrow> string" where
  "numberChars options =
     (if excludeSimilar options then replaceClass ''10'' NUMBERS else NUMBERS)"

definition specialChars :: "PasswordOptions \<Rightarrow> string" where
  "specialChars options =
     (if excludeAmbiguous options then replaceClass ambiguousClass SPECIAL_CHARS
      else SPECIAL_CHARS)"

text \<open>
  The four branches that build \<^verbatim>\<open>charset\<close> and \<^verbatim>\<open>requiredChars\<close>; the state of each
  is the triple of both strings and the random tape. The two branches with a loop return
  \<open>None\<close> when the loop does not end.
\<close>

type_synonym genState = "string \<times> string \<times> rng"

definition addUppercase :: "PasswordOptions \<Rightarrow> genState \<Rightarrow> genState" where
  "addUppercase options st =
     (case st of (charset, requiredChars, r) \<Rightarrow>
        if includeUppercase options then
          (let (c, r') = getRandomChar (upperChars options) r
           in (charset @ upperChars options, strAppend requiredChars c, r'))
        else st)"

definition addLowercase :: "PasswordOptions \<Rightarrow> genState \<Rightarrow> genState" where
  "addLowercase options st =
     (case st of (charset, requiredChars, r) \<Rightarrow>
        if includeLowercase options then
          (let (c, r') = getRandomChar (lowerChars options) r
           in (charset @ lowerChars options, strAppend requiredChars c, r'))
        else st)"

definition addNumbers :: "PasswordOptions \<Rightarrow> genState \<Rightarrow> genState option" where
  "addNumbers options st =
     (case st of (charset, requiredChars, r) \<Rightarrow>
        if includeNumbers options then
          (let numCount = orOne (numberCount options)
           in case drawLoop 0 numCount (numberChars options) requiredChars r of
                None \<Rightarrow> None
              | Some (requiredChars', r') \<Rightarrow>
                  Some (charset @ numberChars options, requiredChars', r'))
        else Some st)"

definition addSpecialChars :: "PasswordOptions \<Rightarrow> genState \<Rightarrow> genState option" where
  "addSpecialChars options st =
     (case st of (charset, requiredChars, r) \<Rightarrow>
        if includeSpecialChars options then
          (let specialCount = orOne (specialCharCount options)
           in case drawLoop 0 specialCount (specialChars options) requiredChars r of
                None \<Rightarrow> None
              | Some (requiredChars', r') \<Rightarrow>
                  Some (charset @ specialChars options, requiredChars', r'))
        else Some st)"

definition buildCharset :: "PasswordOptions \<Rightarrow> rng \<Rightarrow> genState option" where
  "buildCharset options r =
     (case addNumbers options (addLowercase options (addUppercase options ([], [], r))) of
        None \<Rightarrow> None
      | Some st \<Rightarrow> addSpecialChars options st)"

text \<open>
  \<^verbatim>\<open>shuffleString\<close>: \<^verbatim>\<open>for (let i = array.length - 1; i > 0; i--)\<close> draws a byte,
  takes \<^verbatim>\<open>j = byte % (i + 1)\<close> and swaps the cells \<open>i\<close> and \<open>j\<close>. The loop variable is
  the first argument; on the empty string \<^verbatim>\<open>array.length - 1\<close> is \<open>-1\<close> and the loop does
  not run, as with the truncated subtraction below.
\<close>

fun shuffleLoop :: "nat \<Rightarrow> string \<Rightarrow> rng \<Rightarrow> string \<times> rng" where
  "shuffleLoop 0 array r = (array, r)"
| "shuffleLoop (Suc k) array r =
     (let i = Suc k;
          (b, r') = getRandomByte r;
          j = unat b mod (i + 1)
      in shuffleLoop k (array[i := array ! j, j := array ! i]) r')"

definition shuffleString :: "string \<Rightarrow> rng \<Rightarrow> string \<times> rng" where
  "shuffleString str r = shuffleLoop (length str - 1) str r"

text \<open>
  The password before the shuffle: the required characters followed by the fill. The
  outer \<open>option\<close> is \<open>None\<close> when a loop does not end.
\<close>

definition fillPassword :: "PasswordOptions \<Rightarrow> rng \<Rightarrow> (error + (string \<times> rng)) option" where
  "fillPassword options r =
     (case buildCharset options r of
        None \<Rightarrow> None
      | Some (charset, requiredChars, r1) \<Rightarrow>
          if charset = [] then Some (Inl (Error ''At least one character type must be selected''))
          else
            (let remainingLength =
                   jsSub (length_opt options) (Num (real (length requiredChars)))
             in if jsLess remainingLength (Num 0)
                then Some (Inl (Error
                       ''Password length is too short for the required character counts''))
                else
                  (case drawLoop 0 remainingLength charset requiredChars r1 of
                     None \<Rightarrow> None
                   | Some res \<Rightarrow> Some (Inr res))))"

definition generatePassword ::
  "PasswordOptions \<Rightarrow> rng \<Rightarrow> (error + (string \<times> rng)) option" where
  "generatePassword options r =
     (case fillPassword options r of
        None \<Rightarrow> None
      | Some (Inl e) \<Rightarrow> Some (Inl e)
      | Some (Inr (password, r')) \<Rightarrow> Some (Inr (shuffleString password r')))"

subsection \<open>Auxiliary notions\<close>

text \<open>Counting the characters of a class in a string.\<close>

definition countIn :: "string \<Rightarrow> string \<Rightarrow> nat" where
  "countIn cls s = length (filter (\<lambda>c. c \<in> set cls) s)"

text \<open>
  The closed form of the loop: \<open>drawChars k\<close> draws \<open>k\<close> characters, and \<open>loopCount n\<close> is
  the number of turns a loop with the bound \<open>n\<close> takes from 0, if it ends. That the loop
  computes just this is \<open>drawLoop_closed\<close> below.
\<close>

fun drawChars :: "nat \<Rightarrow> string \<Rightarrow> string \<Rightarrow> rng \<Rightarrow> string \<times> rng" where
  "drawChars 0 chars acc r = (acc, r)"
| "drawChars (Suc k) chars acc r =
     drawChars k chars (strAppend acc (fst (getRandomChar chars r)))
       (snd (getRandomChar chars r))"

fun loopCount :: "jsnum \<Rightarrow> nat option" where
  "loopCount NaN = Some 0"
| "loopCount NegInf = Some 0"
| "loopCount PosInf = None"
| "loopCount (Num x) = Some (nat \<lceil>x\<rceil>)"

text \<open>
  The number of characters the four branches put into \<^verbatim>\<open>requiredChars\<close>, if their loops
  end: one for each of the two letter classes, and the turns of the loops of the other
  two.
\<close>

definition classCount :: "bool \<Rightarrow> jsnum option \<Rightarrow> nat option" where
  "classCount enabled cnt = (if enabled then loopCount (orOne cnt) else Some 0)"

definition requiredCount :: "PasswordOptions \<Rightarrow> nat option" where
  "requiredCount options =
     (case (classCount (includeNumbers options) (numberCount options),
            classCount (includeSpecialChars options) (specialCharCount options)) of
        (Some n, Some s) \<Rightarrow>
          Some ((if includeUppercase options then 1 else 0) +
                (if includeLowercase options then 1 else 0) + n + s)
      | _ \<Rightarrow> None)"

text \<open>The character set after the four branches.\<close>

definition charsetOf :: "PasswordOptions \<Rightarrow> string" where
  "charsetOf options =
     (if includeUppercase options then upperChars options else []) @
     (if includeLowercase options then lowerChars options else []) @
     (if includeNumbers options then numberChars options else []) @
     (if includeSpecialChars options then specialChars options else [])"

definition noClass :: "PasswordOptions \<Rightarrow> bool" where
  "noClass options \<longleftrightarrow>
     \<not> includeUppercase options \<and> \<not> includeLowercase options \<and>
     \<not> includeNumbers options \<and> \<not> includeSpecialChars options"

text \<open>The default options the source exports.\<close>

definition DEFAULT_PASSWORD_OPTIONS :: PasswordOptions where
  "DEFAULT_PASSWORD_OPTIONS = \<lparr>length_opt = Num 16, includeUppercase = True,
     includeLowercase = True, includeNumbers = True, includeSpecialChars = True,
     numberCount = Some (Num 2), specialCharCount = Some (Num 2), excludeSimilar = True,
     excludeAmbiguous = False\<rparr>"

subsection \<open>Concrete inputs\<close>

text \<open>Option values and a random tape on which the functions are evaluated below.\<close>

definition optsAll :: PasswordOptions where
  "optsAll = \<lparr>length_opt = Num 6, includeUppercase = True, includeLowercase = True,
     includeNumbers = True, includeSpecialChars = True, numberCount = Some (Num 2),
     specialCharCount = Some (Num 0), excludeSimilar = True, excludeAmbiguous = False\<rparr>"



definition optsUpper :: PasswordOptions where
  "optsUpper = \<lparr>length_opt = Num 1, includeUppercase = True, includeLowercase = False,
     includeNumbers = False, includeSpecialChars = False, numberCount = None,
     specialCharCount = None, excludeSimilar = True, excludeAmbiguous = False\<rparr>"

definition optsFull :: PasswordOptions where
  "optsFull = \<lparr>length_opt = Num 7, includeUppercase = True,
     includeLowercase = True, includeNumbers = True, includeSpecialChars = True,
     numberCount = Some (Num 2), specialCharCount = Some (Num 2), excludeSimilar = True,
     excludeAmbiguous = True\<rparr>"

definition optsZero :: PasswordOptions where
  "optsZero = \<lparr>length_opt = Num 3, includeUppercase = False,
     includeLowercase = False, includeNumbers = True, includeSpecialChars = True,
     numberCount = Some (Num 0), specialCharCount = None, excludeSimilar = False,
     excludeAmbiguous = False\<rparr>"


definition tape :: rng where
  "tape = 12 ## 200 ## 7 ## 33 ## 90 ## 255 ## 4 ## 61 ## 18 ## sconst 5"

section \<open>Strength estimator (password-generator.ts)\<close>

text \<open>The character classes of the regular expressions, on character codes.\<close>

definition isLower :: "char \<Rightarrow> bool" where
  "isLower c \<longleftrightarrow> 97 \<le> (of_char c :: nat) \<and> (of_char c :: nat) \<le> 122"

definition isUpper :: "char \<Rightarrow> bool" where
  "isUpper c \<longleftrightarrow> 65 \<le> (of_char c :: nat) \<and> (of_char c :: nat) \<le> 90"

definition isDigit :: "char \<Rightarrow> bool" where
  "isDigit c \<longleftrightarrow> 48 \<le> (of_char c :: nat) \<and> (of_char c :: nat) \<le> 57"

text \<open>\<^verbatim>\<open>/[^a-zA-Z\d]/\<close>\<close>

definition isOther :: "char \<Rightarrow> bool" where
  "isOther c \<longleftrightarrow> \<not> isLower c \<and> \<not> isUpper c \<and> \<not> isDigit c"

text \<open>
  \<^verbatim>\<open>/(.)\1{2,}/\<close>: three equal characters in a row; the dot does not match a line
  terminator (line feed and carriage return among the characters of \<^typ>\<open>char\<close>).
\<close>

fun hasRepeat :: "string \<Rightarrow> bool" where
  "hasRepeat (a # b # c # rest) =
     ((a = b \<and> b = c \<and> a \<noteq> CHR 0x0A \<and> a \<noteq> CHR 0x0D) \<or> hasRepeat (b # c # rest))"
| "hasRepeat s = False"

text \<open>The case-insensitive match of a lowercase literal somewhere in the string.\<close>

definition toLower :: "char \<Rightarrow> char" where
  "toLower c = (if isUpper c then char_of (of_char c + (32::nat)) else c)"

fun containsCI :: "string \<Rightarrow> string \<Rightarrow> bool" where
  "containsCI pat [] = (pat = [])"
| "containsCI pat (c # cs) =
     (take (length pat) (map toLower (c # cs)) = pat \<or> containsCI pat cs)"

text \<open>\<^verbatim>\<open>/123|abc|qwe/i\<close>\<close>

definition hasCommonPattern :: "string \<Rightarrow> bool" where
  "hasCommonPattern s \<longleftrightarrow> containsCI ''123'' s \<or> containsCI ''abc'' s \<or> containsCI ''qwe'' s"

text \<open>
  The score before the entropy term: the length bonus, the variety bonuses, the pattern
  penalties and the length bonuses and penalty, all finite.
\<close>

definition baseScore :: "string \<Rightarrow> real" where
  "baseScore password =
     (let score = 0;
          score = score + min (real (length password) * 4) 25;
          score = (if list_ex isLower password then score + 5 else score);
          score = (if list_ex isUpper password then score + 5 else score);
          score = (if list_ex isDigit password then score + 5 else score);
          score = (if list_ex isOther password then score + 10 else score);
          score = (if hasRepeat password then score - 10 else score);
          score = (if hasCommonPattern password then score - 10 else score);
          score = (if length password \<ge> 16 then score + 10 else score);
          score = (if length password \<ge> 20 then score + 10 else score);
          score = (if length password < 8 then score - 20 else score)
      in score)"

record Strength =
  score :: jsnum
  label :: string
  color :: string

definition estimatePasswordStrength :: "string \<Rightarrow> Strength" where
  "estimatePasswordStrength password =
     (let uniqueChars = length (remdups password);
          entropy = jsMul (Num (real (length password))) (Math_log2 (Num (real uniqueChars)));
          score = jsAdd (Num (baseScore password)) (Math_min (jsDivBy entropy 4) (Num 25));
          score = Math_max (Num 0) (Math_min (Num 100) score)
      in if jsLess score (Num 30) then \<lparr>score = score, label = ''Weak'', color = ''destructive''\<rparr>
         else if jsLess score (Num 60) then \<lparr>score = score, label = ''Fair'', color = ''accent''\<rparr>
         else if jsLess score (Num 80) then \<lparr>score = score, label = ''Good'', color = ''primary''\<rparr>
         else \<lparr>score = score, label = ''Strong'', color = ''primary''\<rparr>)"

section \<open>Encryption service (encryption.ts) and vault storage (storage.ts)\<close>

subsection \<open>Run-time values and the libraries\<close>

text \<open>
  A JSON value: what \<^verbatim>\<open>JSON.parse\<close> returns and \<^verbatim>\<open>JSON.stringify\<close> takes. An object of
  the run time whose fields are strings and arrays of strings is such a value. A value
  that may be \<^verbatim>\<open>undefined\<close> is optional.
\<close>

datatype json =
    JNull
  | JBool bool
  | JNumber rat
  | JString string
  | JArray "json list"
  | JObject "(string \<times> json) list"

type_synonym jsval = "json option"

text \<open>
  Reading a field, \<^verbatim>\<open>v.name\<close>, for the names the source reads (\<^verbatim>\<open>data\<close>, \<^verbatim>\<open>iv\<close>,
  \<^verbatim>\<open>salt\<close>): a \<^verbatim>\<open>TypeError\<close> on \<^verbatim>\<open>null\<close>, the field of an object if it has one (the
  last, where a name is repeated), and \<^verbatim>\<open>undefined\<close> otherwise.
\<close>

fun getProp :: "json \<Rightarrow> string \<Rightarrow> error + jsval" where
  "getProp JNull name = Inl TypeError"
| "getProp (JObject kvs) name = Inr (map_of (rev kvs) name)"
| "getProp v name = Inr None"

text \<open>
  The source calls CryptoJS and the \<^verbatim>\<open>JSON\<close> object of the run time, neither of which
  is part of the repository. Their functions are the fields of a record that every
  function of the model takes as its first argument:
  \<^item> \<open>PBKDF2 password salt keySize iterations\<close> is
    \<^verbatim>\<open>CryptoJS.PBKDF2(password, salt, {keySize, iterations}).toString()\<close>;
  \<^item> \<open>WordArray_random n\<close> is \<^verbatim>\<open>CryptoJS.lib.WordArray.random(n).toString()\<close>, which
    reads the random source;
  \<^item> \<open>AES_encrypt data key iv\<close> is \<^verbatim>\<open>CryptoJS.AES.encrypt(data, key, cfg).toString()\<close>
    and \<open>AES_decrypt data key iv\<close> is
    \<^verbatim>\<open>CryptoJS.AES.decrypt(data, key, cfg).toString(CryptoJS.enc.Utf8)\<close>, with
    \<^verbatim>\<open>cfg = {iv: CryptoJS.enc.Hex.parse(iv), mode: CBC, padding: Pkcs7}\<close>; encryption may
    read the random source;
  \<^item> \<open>JSON_stringify\<close> and \<open>JSON_parse\<close>.

  Decryption receives what was read from a stored object, which the source casts to
  \<^verbatim>\<open>EncryptedData\<close> without a check: its salt, data and IV are values of any kind or
  \<^verbatim>\<open>undefined\<close>. Key derivation, decryption and parsing may throw.
\<close>

record cryptoLib =
  PBKDF2 :: "string \<Rightarrow> jsval \<Rightarrow> nat \<Rightarrow> nat \<Rightarrow> error + string"
  WordArray_random :: "nat \<Rightarrow> rng \<Rightarrow> string \<times> rng"
  AES_encrypt :: "string \<Rightarrow> string \<Rightarrow> string \<Rightarrow> rng \<Rightarrow> string \<times> rng"
  AES_decrypt :: "jsval \<Rightarrow> string \<Rightarrow> jsval \<Rightarrow> error + string"
  JSON_stringify :: "json \<Rightarrow> string"
  JSON_parse :: "string \<Rightarrow> error + json"

subsection \<open>encryption.ts\<close>

record EncryptedData =
  data :: string
  iv :: string
  salt :: string

text \<open>The object \<^verbatim>\<open>{data, iv, salt}\<close> as a value of the run time.\<close>

definition envelopeJson :: "EncryptedData \<Rightarrow> json" where
  "envelopeJson e = JObject
     [(''data'', JString (data e)), (''iv'', JString (iv e)), (''salt'', JString (salt e))]"

definition deriveKey :: "cryptoLib \<Rightarrow> string \<Rightarrow> jsval \<Rightarrow> error + string" where
  "deriveKey L masterPassword salt' = PBKDF2 L masterPassword salt' (256 div 32) 100000"

definition generateSalt :: "cryptoLib \<Rightarrow> rng \<Rightarrow> string \<times> rng" where
  "generateSalt L r = WordArray_random L (256 div 8) r"

definition generateIV :: "cryptoLib \<Rightarrow> rng \<Rightarrow> string \<times> rng" where
  "generateIV L r = WordArray_random L (96 div 8) r"

definition encryptData ::
  "cryptoLib \<Rightarrow> string \<Rightarrow> string \<Rightarrow> rng \<Rightarrow> error + (EncryptedData \<times> rng)" where
  "encryptData L data' masterPassword r =
     (let (salt', r1) = generateSalt L r;
          (iv', r2) = generateIV L r1
      in case deriveKey L masterPassword (Some (JString salt')) of
           Inl e \<Rightarrow> Inl e
         | Inr key \<Rightarrow>
             (let (encrypted, r3) = AES_encrypt L data' key iv' r2
              in Inr (\<lparr>data = encrypted, iv = iv', salt = salt'\<rparr>, r3)))"

text \<open>\<^verbatim>\<open>decryptData\<close> on the value that stands for its first argument at run time.\<close>

definition decryptData :: "cryptoLib \<Rightarrow> json \<Rightarrow> string \<Rightarrow> error + string" where
  "decryptData L encryptedData masterPassword =
     (case getProp encryptedData ''salt'' of
        Inl e \<Rightarrow> Inl e
      | Inr salt' \<Rightarrow>
          (case deriveKey L masterPassword salt' of
             Inl e \<Rightarrow> Inl e
           | Inr key \<Rightarrow>
               (case getProp encryptedData ''data'' of
                  Inl e \<Rightarrow> Inl e
                | Inr data' \<Rightarrow>
                    (case getProp encryptedData ''iv'' of
                       Inl e \<Rightarrow> Inl e
                     | Inr iv' \<Rightarrow> AES_decrypt L data' key iv'))))"

text \<open>The \<^verbatim>\<open>catch\<close> of \<^verbatim>\<open>validateMasterPassword\<close> turns every exception into \<^verbatim>\<open>false\<close>.\<close>

definition validateMasterPassword :: "cryptoLib \<Rightarrow> string \<Rightarrow> json \<Rightarrow> bool" where
  "validateMasterPassword L password testData =
     (case decryptData L testData password of
        Inl e \<Rightarrow> False
      | Inr decrypted \<Rightarrow> decrypted = ''MASTER_PASSWORD_VALIDATION'')"


subsection \<open>storage.ts\<close>

record PasswordEntry =
  id_entry :: string
  title :: string
  website :: string
  username :: string
  password_entry :: string
  notes_entry :: string
  createdAt :: string
  updatedAt :: string
  tags :: "string list"

record VaultData =
  entries :: "PasswordEntry list"
  version :: string

text \<open>The objects as values of the run time.\<close>

definition entryJson :: "PasswordEntry \<Rightarrow> json" where
  "entryJson e = JObject
     [(''id'', JString (id_entry e)), (''title'', JString (title e)),
      (''website'', JString (website e)), (''username'', JString (username e)),
      (''password'', JString (password_entry e)), (''notes'', JString (notes_entry e)),
      (''createdAt'', JString (createdAt e)), (''updatedAt'', JString (updatedAt e)),
      (''tags'', JArray (map JString (tags e)))]"

definition vaultJson :: "VaultData \<Rightarrow> json" where
  "vaultJson v = JObject
     [(''entries'', JArray (map entryJson (entries v))), (''version'', JString (version v))]"

text \<open>The key-value store \<^verbatim>\<open>Preferences\<close>.\<close>

type_synonym preferences = "string \<rightharpoonup> string"

definition VAULT_DATA :: string where
  "VAULT_DATA = ''secure_vault_data''"

text \<open>
  \<^verbatim>\<open>storeVaultData\<close>: every exception inside the \<^verbatim>\<open>try\<close> becomes the one error of the
  \<^verbatim>\<open>catch\<close>; the result is the new store and the random tape.
\<close>

definition saveFailed :: error where
  "saveFailed = Error ''Failed to save password vault''"

definition storeVaultData ::
  "cryptoLib \<Rightarrow> VaultData \<Rightarrow> string \<Rightarrow> preferences \<Rightarrow> rng \<Rightarrow> error + (preferences \<times> rng)"
  where
  "storeVaultData L vaultData masterPassword prefs r =
     (let jsonData = JSON_stringify L (vaultJson vaultData)
      in case encryptData L jsonData masterPassword r of
           Inl e \<Rightarrow> Inl saveFailed
         | Inr (encryptedData, r') \<Rightarrow>
             Inr (prefs(VAULT_DATA \<mapsto> JSON_stringify L (envelopeJson encryptedData)), r'))"

text \<open>
  \<^verbatim>\<open>getVaultData\<close>: \<^verbatim>\<open>null\<close> when nothing (or the empty string) is stored; every
  exception inside the \<^verbatim>\<open>try\<close> becomes the one error of the \<^verbatim>\<open>catch\<close>; the parsed
  values are used and returned unchecked.
\<close>

definition decryptFailed :: error where
  "decryptFailed =
     Error ''Failed to decrypt password vault. Please check your master password.''"

definition getVaultData :: "cryptoLib \<Rightarrow> string \<Rightarrow> preferences \<Rightarrow> error + json" where
  "getVaultData L masterPassword prefs =
     (case prefs VAULT_DATA of
        None \<Rightarrow> Inr JNull
      | Some v \<Rightarrow>
          if v = [] then Inr JNull
          else
            (case JSON_parse L v of
               Inl e \<Rightarrow> Inl decryptFailed
             | Inr encryptedData \<Rightarrow>
                 (case decryptData L encryptedData masterPassword of
                    Inl e \<Rightarrow> Inl decryptFailed
                  | Inr decryptedJson \<Rightarrow>
                      (case JSON_parse L decryptedJson of
                         Inl e \<Rightarrow> Inl decryptFailed
                       | Inr vault \<Rightarrow> Inr vault))))"

subsection \<open>What the model asks of the libraries\<close>

text \<open>
  \<^item> Decryption of an encrypted text under the key of the encryption returns the
    plaintext.
  \<^item> Parsing the text of a vault or of an envelope returns that value, and the text of an
    envelope is not empty.
  \<^item> Key derivation with a string as salt returns a key.
  \<^item> PBKDF2 uses the password as the key of an HMAC, which fills a key shorter than
    the block of the hash (64 bytes) with zero bytes: a password of fewer than 32
    characters and the same password followed by the character of code 0 give the same
    result.
\<close>

definition cipherInverts :: "cryptoLib \<Rightarrow> bool" where
  "cipherInverts L \<longleftrightarrow>
     (\<forall>d k i r. AES_decrypt L (Some (JString (fst (AES_encrypt L d k i r)))) k
                  (Some (JString i)) = Inr d)"

definition jsonInverts :: "cryptoLib \<Rightarrow> bool" where
  "jsonInverts L \<longleftrightarrow>
     (\<forall>v. JSON_parse L (JSON_stringify L (vaultJson v)) = Inr (vaultJson v)) \<and>
     (\<forall>e. JSON_parse L (JSON_stringify L (envelopeJson e)) = Inr (envelopeJson e) \<and>
          JSON_stringify L (envelopeJson e) \<noteq> [])"

definition kdfReturns :: "cryptoLib \<Rightarrow> bool" where
  "kdfReturns L \<longleftrightarrow> (\<forall>p s e. deriveKey L p (Some (JString s)) \<noteq> Inl e)"


subsection \<open>A small library that meets these demands\<close>

text \<open>
  It shows that the demands can be met together. A key byte is a weighted sum of the
  character codes of password and salt; the cipher shifts every character by the sum of
  the codes of the key, checks nothing on decryption and ignores the IV; random words are
  read off the tape; a JSON value is written as a run of strokes whose number encodes it.
\<close>

definition hexDigits :: string where
  "hexDigits = ''0123456789abcdef''"

definition hexByte :: "nat \<Rightarrow> string" where
  "hexByte n = [hexDigits ! ((n div 16) mod 16), hexDigits ! (n mod 16)]"

fun wsum :: "nat \<Rightarrow> string \<Rightarrow> nat" where
  "wsum w [] = 0"
| "wsum w (c # cs) = of_char c * w + wsum (Suc w) cs"

definition toyKey :: "string \<Rightarrow> string \<Rightarrow> nat \<Rightarrow> string" where
  "toyKey p s n =
     concat (map (\<lambda>i. hexByte ((wsum (Suc i) p + wsum (i + 2) s) mod 256)) [0..<n])"

definition toyPBKDF2 :: "string \<Rightarrow> jsval \<Rightarrow> nat \<Rightarrow> nat \<Rightarrow> error + string" where
  "toyPBKDF2 p sv keySize iterations =
     (case sv of Some (JString s) \<Rightarrow> Inr (toyKey p s (4 * keySize)) | _ \<Rightarrow> Inl TypeError)"

definition toyRandom :: "nat \<Rightarrow> rng \<Rightarrow> string \<times> rng" where
  "toyRandom n r = (concat (map (\<lambda>b. hexByte (unat b)) (stake n r)), sdrop n r)"

definition toyShift :: "string \<Rightarrow> nat" where
  "toyShift k = sum_list (map of_char k) mod 256"

definition toyEncrypt :: "string \<Rightarrow> string \<Rightarrow> string \<Rightarrow> rng \<Rightarrow> string \<times> rng" where
  "toyEncrypt d k i r = (map (\<lambda>c. char_of (of_char c + toyShift k)) d, r)"

definition toyDecrypt :: "jsval \<Rightarrow> string \<Rightarrow> jsval \<Rightarrow> error + string" where
  "toyDecrypt dv k i =
     (case dv of
        Some (JString c) \<Rightarrow> Inr (map (\<lambda>x. char_of (of_char x + (256 - toyShift k))) c)
      | _ \<Rightarrow> Inl TypeError)"

instance json :: countable
  by countable_datatype

definition toyStringify :: "json \<Rightarrow> string" where
  "toyStringify j = replicate (Suc (to_nat j)) (CHR ''|'')"

definition toyParse :: "string \<Rightarrow> error + json" where
  "toyParse s = Inr (from_nat (length s - 1))"

definition toyLib :: cryptoLib where
  "toyLib = \<lparr>PBKDF2 = toyPBKDF2, WordArray_random = toyRandom, AES_encrypt = toyEncrypt,
     AES_decrypt = toyDecrypt, JSON_stringify = toyStringify, JSON_parse = toyParse\<rparr>"

text \<open>A vault with one entry.\<close>

definition sampleVault :: VaultData where
  "sampleVault = \<lparr>entries =
     [\<lparr>id_entry = ''1'', title = ''Mail'', website = ''mail.example'', username = ''ann'',
       password_entry = ''Tr7!qX9#mZ2$'', notes_entry = '''', createdAt = ''2024-01-01'',
       updatedAt = ''2024-01-02'', tags = [''work'', ''mail'']\<rparr>],
     version = ''1.0.0''\<rparr>"

section \<open>Properties of the password generator\<close>

subsection \<open>The loops\<close>

lemma jsLess_loopCount:
  assumes "loopCount n = Some k"
  shows "jsLess (Num (real i)) n \<longleftrightarrow> i < k"
proof (cases n)
  case (Num x)
  have "real i < x \<longleftrightarrow> int i < \<lceil>x\<rceil>" by (simp add: less_ceiling_iff)
  also have "\<dots> \<longleftrightarrow> i < nat \<lceil>x\<rceil>" by linarith
  finally show ?thesis using assms Num by simp
qed (use assms in simp_all)

lemma drawLoop_finite:
  assumes "loopCount n = Some k"
  shows "drawLoop i n chars acc r = Some (drawChars (k - i) chars acc r)"
proof (induction "k - i" arbitrary: i acc r)
  case 0
  then have "\<not> i < k" by simp
  then have "\<not> jsLess (Num (real i)) n" using jsLess_loopCount[OF assms] by simp
  then show ?case using 0 by (subst drawLoop.simps) simp
next
  case (Suc m)
  then have lt: "i < k" and m: "m = k - Suc i" by simp_all
  have step: "k - i = Suc (k - Suc i)" using lt by simp
  have "jsLess (Num (real i)) n" using jsLess_loopCount[OF assms] lt by simp
  then have "drawLoop i n chars acc r =
      drawLoop (Suc i) n chars (strAppend acc (fst (getRandomChar chars r)))
        (snd (getRandomChar chars r))"
    by (subst drawLoop.simps) simp
  also have "\<dots> = Some (drawChars (k - Suc i) chars
      (strAppend acc (fst (getRandomChar chars r))) (snd (getRandomChar chars r)))"
    using Suc.hyps(1)[OF m] .
  finally show ?case by (simp add: step)
qed

lemma drawLoop_Some_finite:
  assumes "drawLoop i n chars acc r = Some y"
  shows "n \<noteq> PosInf"
proof (rule drawLoop.raw_induct[where P = "\<lambda>i n chars acc r y. n \<noteq> PosInf", OF _ assms])
  fix f :: "nat \<Rightarrow> jsnum \<Rightarrow> string \<Rightarrow> string \<Rightarrow> rng \<Rightarrow> (string \<times> rng) option"
    and i n chars acc r y
  assume IH: "\<And>i n chars acc r y. f i n chars acc r = Some y \<Longrightarrow> n \<noteq> PosInf"
    and body: "(if jsLess (Num (real i)) n
      then f (Suc i) n chars (strAppend acc (fst (getRandomChar chars r)))
             (snd (getRandomChar chars r))
      else Some (acc, r)) = Some y"
  show "n \<noteq> PosInf"
  proof
    assume inf: "n = PosInf"
    with body have "f (Suc i) n chars (strAppend acc (fst (getRandomChar chars r)))
        (snd (getRandomChar chars r)) = Some y"
      by simp
    from IH[OF this] inf show False by simp
  qed
qed

lemma drawLoop_infinite: "drawLoop i PosInf chars acc r = None"
  using drawLoop_Some_finite[of i PosInf chars acc r] by (cases "drawLoop i PosInf chars acc r") auto

lemma drawLoop_closed:
  "drawLoop 0 n chars acc r = map_option (\<lambda>k. drawChars k chars acc r) (loopCount n)"
proof (cases "loopCount n")
  case None
  then have "n = PosInf" by (cases n) simp_all
  then show ?thesis by (simp add: drawLoop_infinite)
next
  case (Some k)
  then show ?thesis using drawLoop_finite[OF Some, of 0] by simp
qed

lemma alphabets_nonempty:
  "replaceClass ''IL'' UPPERCASE \<noteq> []" "UPPERCASE \<noteq> []"
  "replaceClass ''il'' LOWERCASE \<noteq> []" "LOWERCASE \<noteq> []"
  "replaceClass ''10'' NUMBERS \<noteq> []" "NUMBERS \<noteq> []"
  "replaceClass ambiguousClass SPECIAL_CHARS \<noteq> []" "SPECIAL_CHARS \<noteq> []"
  by (simp_all add: replaceClass_def UPPERCASE_def LOWERCASE_def NUMBERS_def SPECIAL_CHARS_def
      ambiguousClass_def)

lemma set_replaceClass: "set (replaceClass cls str) \<subseteq> set str"
  by (auto simp: replaceClass_def)

lemma getRandomChar_nonempty:
  assumes "chars \<noteq> []"
  shows "\<exists>c. getRandomChar chars r = (Some c, stl r) \<and> c \<in> set chars"
  using assms by (simp add: getRandomChar_def getRandomByte_def)

lemma drawChars_appends:
  assumes "chars \<noteq> []"
  shows "\<exists>ys. fst (drawChars k chars acc r) = acc @ ys \<and> length ys = k \<and> set ys \<subseteq> set chars"
proof (induction k arbitrary: acc r)
  case 0
  show ?case by simp
next
  case (Suc k)
  obtain c where c: "getRandomChar chars r = (Some c, stl r)" "c \<in> set chars"
    using getRandomChar_nonempty[OF assms] by blast
  obtain ys where ys: "fst (drawChars k chars (acc @ [c]) (stl r)) = (acc @ [c]) @ ys"
      "length ys = k" "set ys \<subseteq> set chars"
    using Suc.IH by blast
  have "fst (drawChars (Suc k) chars acc r) = acc @ (c # ys)"
    using c ys by simp
  moreover have "length (c # ys) = Suc k" "set (c # ys) \<subseteq> set chars"
    using c ys by simp_all
  ultimately show ?case by blast
qed

lemma shuffleLoop_mset:
  "k < length xs \<Longrightarrow> mset (fst (shuffleLoop k xs r)) = mset xs"
proof (induction k arbitrary: xs r)
  case 0
  show ?case by simp
next
  case (Suc k)
  let ?j = "unat (shd r) mod (Suc k + 1)"
  have "?j < Suc k + 1" by (rule mod_less_divisor) simp
  then have j: "?j < length xs" using Suc.prems by linarith
  let ?ys = "xs[Suc k := xs ! ?j, ?j := xs ! Suc k]"
  have "mset ?ys = mset xs" using mset_swap[OF j Suc.prems] .
  moreover have "k < length ?ys" using Suc.prems by simp
  ultimately show ?case using Suc.IH[of ?ys "stl r"]
    by (simp add: getRandomByte_def Let_def)
qed

lemma shuffleString_mset: "mset (fst (shuffleString str r)) = mset str"
proof (cases str)
  case Nil
  then show ?thesis by (simp add: shuffleString_def)
next
  case (Cons a as)
  then have "length str - 1 < length str" by simp
  then show ?thesis unfolding shuffleString_def by (rule shuffleLoop_mset)
qed

lemma shuffleString_length: "length (fst (shuffleString str r)) = length str"
  using shuffleString_mset[of str r] by (metis size_mset)

subsection \<open>The four branches\<close>

lemma alphabet_nonempty:
  "upperChars options \<noteq> []" "lowerChars options \<noteq> []"
  "numberChars options \<noteq> []" "specialChars options \<noteq> []"
  by (simp_all add: upperChars_def lowerChars_def numberChars_def specialChars_def
      alphabets_nonempty)

lemma alphabet_subset:
  "set (upperChars options) \<subseteq> set UPPERCASE" "set (lowerChars options) \<subseteq> set LOWERCASE"
  "set (numberChars options) \<subseteq> set NUMBERS" "set (specialChars options) \<subseteq> set SPECIAL_CHARS"
  by (simp_all add: upperChars_def lowerChars_def numberChars_def specialChars_def
      set_replaceClass)

lemma addUppercase_shape:
  "\<exists>u r'. addUppercase options (cs, req, r) =
       (cs @ (if includeUppercase options then upperChars options else []), req @ u, r') \<and>
     length u = (if includeUppercase options then 1 else 0) \<and>
     set u \<subseteq> set (upperChars options)"
proof (cases "includeUppercase options")
  case True
  obtain c where "getRandomChar (upperChars options) r = (Some c, stl r)"
      "c \<in> set (upperChars options)"
    using getRandomChar_nonempty[OF alphabet_nonempty(1)] by blast
  with True have "addUppercase options (cs, req, r) =
       (cs @ (if includeUppercase options then upperChars options else []), req @ [c], stl r)
     \<and> length [c] = (if includeUppercase options then 1 else 0)
     \<and> set [c] \<subseteq> set (upperChars options)"
    by (simp add: addUppercase_def)
  then show ?thesis by blast
next
  case False
  then have "addUppercase options (cs, req, r) =
       (cs @ (if includeUppercase options then upperChars options else []), req @ [], r)
     \<and> length ([]::string) = (if includeUppercase options then 1 else 0)
     \<and> set ([]::string) \<subseteq> set (upperChars options)"
    by (simp add: addUppercase_def)
  then show ?thesis by blast
qed

lemma addLowercase_shape:
  "\<exists>u r'. addLowercase options (cs, req, r) =
       (cs @ (if includeLowercase options then lowerChars options else []), req @ u, r') \<and>
     length u = (if includeLowercase options then 1 else 0) \<and>
     set u \<subseteq> set (lowerChars options)"
proof (cases "includeLowercase options")
  case True
  obtain c where "getRandomChar (lowerChars options) r = (Some c, stl r)"
      "c \<in> set (lowerChars options)"
    using getRandomChar_nonempty[OF alphabet_nonempty(2)] by blast
  with True have "addLowercase options (cs, req, r) =
       (cs @ (if includeLowercase options then lowerChars options else []), req @ [c], stl r)
     \<and> length [c] = (if includeLowercase options then 1 else 0)
     \<and> set [c] \<subseteq> set (lowerChars options)"
    by (simp add: addLowercase_def)
  then show ?thesis by blast
next
  case False
  then have "addLowercase options (cs, req, r) =
       (cs @ (if includeLowercase options then lowerChars options else []), req @ [], r)
     \<and> length ([]::string) = (if includeLowercase options then 1 else 0)
     \<and> set ([]::string) \<subseteq> set (lowerChars options)"
    by (simp add: addLowercase_def)
  then show ?thesis by blast
qed

text \<open>The branches with a loop end exactly when the loop does.\<close>

lemma addNumbers_None:
  "addNumbers options (cs, req, r) = None \<longleftrightarrow>
     classCount (includeNumbers options) (numberCount options) = None"
  by (cases "loopCount (orOne (numberCount options))")
    (simp_all add: addNumbers_def classCount_def drawLoop_closed split_beta)

lemma addNumbers_shape:
  assumes "classCount (includeNumbers options) (numberCount options) = Some k"
  shows "\<exists>u r'. addNumbers options (cs, req, r) =
       Some (cs @ (if includeNumbers options then numberChars options else []), req @ u, r') \<and>
     length u = k \<and> set u \<subseteq> set (numberChars options)"
proof (cases "includeNumbers options")
  case True
  then have lc: "loopCount (orOne (numberCount options)) = Some k"
    using assms by (simp add: classCount_def)
  obtain ys where ys:
    "fst (drawChars k (numberChars options) req r) = req @ ys"
    "length ys = k" "set ys \<subseteq> set (numberChars options)"
    using drawChars_appends[OF alphabet_nonempty(3)] by blast
  have "addNumbers options (cs, req, r) =
       Some (cs @ (if includeNumbers options then numberChars options else []), req @ ys,
        snd (drawChars k (numberChars options) req r))"
    using True lc ys(1) by (simp add: addNumbers_def drawLoop_closed split_beta prod_eq_iff)
  with ys show ?thesis by blast
next
  case False
  then have "k = 0" using assms by (simp add: classCount_def)
  with False have "addNumbers options (cs, req, r) =
       Some (cs @ (if includeNumbers options then numberChars options else []), req @ [], r)
     \<and> length ([]::string) = k \<and> set ([]::string) \<subseteq> set (numberChars options)"
    by (simp add: addNumbers_def)
  then show ?thesis by blast
qed

lemma addSpecialChars_None:
  "addSpecialChars options (cs, req, r) = None \<longleftrightarrow>
     classCount (includeSpecialChars options) (specialCharCount options) = None"
  by (cases "loopCount (orOne (specialCharCount options))")
    (simp_all add: addSpecialChars_def classCount_def drawLoop_closed split_beta)

lemma addSpecialChars_shape:
  assumes "classCount (includeSpecialChars options) (specialCharCount options) = Some k"
  shows "\<exists>u r'. addSpecialChars options (cs, req, r) =
       Some (cs @ (if includeSpecialChars options then specialChars options else []),
             req @ u, r') \<and>
     length u = k \<and> set u \<subseteq> set (specialChars options)"
proof (cases "includeSpecialChars options")
  case True
  then have lc: "loopCount (orOne (specialCharCount options)) = Some k"
    using assms by (simp add: classCount_def)
  obtain ys where ys:
    "fst (drawChars k (specialChars options) req r) = req @ ys"
    "length ys = k" "set ys \<subseteq> set (specialChars options)"
    using drawChars_appends[OF alphabet_nonempty(4)] by blast
  have "addSpecialChars options (cs, req, r) =
       Some (cs @ (if includeSpecialChars options then specialChars options else []), req @ ys,
        snd (drawChars k (specialChars options) req r))"
    using True lc ys(1) by (simp add: addSpecialChars_def drawLoop_closed split_beta prod_eq_iff)
  with ys show ?thesis by blast
next
  case False
  then have "k = 0" using assms by (simp add: classCount_def)
  with False have "addSpecialChars options (cs, req, r) =
       Some (cs @ (if includeSpecialChars options then specialChars options else []),
             req @ [], r)
     \<and> length ([]::string) = k \<and> set ([]::string) \<subseteq> set (specialChars options)"
    by (simp add: addSpecialChars_def)
  then show ?thesis by blast
qed

subsection \<open>The character set and the required characters\<close>

lemma buildCharset_None:
  "buildCharset options r = None \<longleftrightarrow> requiredCount options = None"
proof -
  obtain cs req r1 where st: "addLowercase options (addUppercase options ([], [], r)) = (cs, req, r1)"
    by (metis prod_cases3)
  show ?thesis
  proof (cases "classCount (includeNumbers options) (numberCount options)")
    case None
    then show ?thesis
      using addNumbers_None[of options cs req r1]
      by (simp add: buildCharset_def st requiredCount_def)
  next
    case (Some kn)
    obtain u r2 where n: "addNumbers options (cs, req, r1) =
        Some (cs @ (if includeNumbers options then numberChars options else []), req @ u, r2)"
      using addNumbers_shape[OF Some] by blast
    show ?thesis
      using addSpecialChars_None[of options _ "req @ u" r2] Some
      by (cases "classCount (includeSpecialChars options) (specialCharCount options)")
        (simp_all add: buildCharset_def st n requiredCount_def)
  qed
qed

lemma buildCharset_shape:
  assumes "classCount (includeNumbers options) (numberCount options) = Some kn"
    "classCount (includeSpecialChars options) (specialCharCount options) = Some ks"
  shows "\<exists>u l n s r'. buildCharset options r = Some (charsetOf options, u @ l @ n @ s, r') \<and>
     length u = (if includeUppercase options then 1 else 0) \<and>
     set u \<subseteq> set (upperChars options) \<and>
     length l = (if includeLowercase options then 1 else 0) \<and>
     set l \<subseteq> set (lowerChars options) \<and>
     length n = kn \<and> set n \<subseteq> set (numberChars options) \<and>
     length s = ks \<and> set s \<subseteq> set (specialChars options)"
proof -
  obtain u r1 where u: "addUppercase options ([], [], r) =
       ([] @ (if includeUppercase options then upperChars options else []), [] @ u, r1)"
      "length u = (if includeUppercase options then 1 else 0)"
      "set u \<subseteq> set (upperChars options)"
    using addUppercase_shape[of options "[]" "[]" r] by blast
  obtain l r2 where l: "addLowercase options
        ([] @ (if includeUppercase options then upperChars options else []), [] @ u, r1) =
       (([] @ (if includeUppercase options then upperChars options else [])) @
          (if includeLowercase options then lowerChars options else []), ([] @ u) @ l, r2)"
      "length l = (if includeLowercase options then 1 else 0)"
      "set l \<subseteq> set (lowerChars options)"
    using addLowercase_shape by blast
  obtain n r3 where n: "addNumbers options
        (([] @ (if includeUppercase options then upperChars options else [])) @
          (if includeLowercase options then lowerChars options else []), ([] @ u) @ l, r2) =
       Some ((([] @ (if includeUppercase options then upperChars options else [])) @
          (if includeLowercase options then lowerChars options else [])) @
          (if includeNumbers options then numberChars options else []), (([] @ u) @ l) @ n, r3)"
      "length n = kn" "set n \<subseteq> set (numberChars options)"
    using addNumbers_shape[OF assms(1)] by blast
  obtain s r4 where s: "addSpecialChars options
       ((([] @ (if includeUppercase options then upperChars options else [])) @
          (if includeLowercase options then lowerChars options else [])) @
          (if includeNumbers options then numberChars options else []), (([] @ u) @ l) @ n, r3) =
       Some (((([] @ (if includeUppercase options then upperChars options else [])) @
          (if includeLowercase options then lowerChars options else [])) @
          (if includeNumbers options then numberChars options else [])) @
          (if includeSpecialChars options then specialChars options else []),
        ((([] @ u) @ l) @ n) @ s, r4)"
      "length s = ks" "set s \<subseteq> set (specialChars options)"
    using addSpecialChars_shape[OF assms(2)] by blast
  have "buildCharset options r = Some (charsetOf options, u @ l @ n @ s, r4)"
    unfolding buildCharset_def u(1) l(1) n(1) option.case s(1) by (simp add: charsetOf_def)
  with u(2,3) l(2,3) n(2,3) s(2,3) show ?thesis by blast
qed

lemma requiredCount_Some:
  assumes "requiredCount options = Some k"
  shows "\<exists>kn ks. classCount (includeNumbers options) (numberCount options) = Some kn \<and>
    classCount (includeSpecialChars options) (specialCharCount options) = Some ks \<and>
    k = (if includeUppercase options then 1 else 0) +
        (if includeLowercase options then 1 else 0) + kn + ks"
  using assms unfolding requiredCount_def
  by (auto split: option.splits)

lemma buildCharset_required:
  assumes "requiredCount options = Some k"
  shows "\<exists>req r'. buildCharset options r = Some (charsetOf options, req, r') \<and> length req = k"
proof -
  obtain kn ks where c: "classCount (includeNumbers options) (numberCount options) = Some kn"
      "classCount (includeSpecialChars options) (specialCharCount options) = Some ks"
      "k = (if includeUppercase options then 1 else 0) +
        (if includeLowercase options then 1 else 0) + kn + ks"
    using requiredCount_Some[OF assms] by blast
  obtain u l n s r' where "buildCharset options r = Some (charsetOf options, u @ l @ n @ s, r')"
      "length u = (if includeUppercase options then 1 else 0)"
      "length l = (if includeLowercase options then 1 else 0)"
      "length n = kn" "length s = ks"
    using buildCharset_shape[OF c(1,2)] by blast
  then have "buildCharset options r = Some (charsetOf options, u @ l @ n @ s, r') \<and>
      length (u @ l @ n @ s) = k"
    using c(3) by simp
  then show ?thesis by blast
qed

lemma charsetOf_empty_iff: "charsetOf options = [] \<longleftrightarrow> noClass options"
  by (simp add: charsetOf_def noClass_def alphabet_nonempty)


subsection \<open>The password before the shuffle\<close>



lemma fillPassword_ok:
  assumes "fillPassword options r = Some (Inr (p, r2))"
  shows "\<exists>u l n s fill kn ks kf.
     classCount (includeNumbers options) (numberCount options) = Some kn \<and>
     classCount (includeSpecialChars options) (specialCharCount options) = Some ks \<and>
     p = (u @ l @ n @ s) @ fill \<and>
     length u = (if includeUppercase options then 1 else 0) \<and>
     set u \<subseteq> set (upperChars options) \<and>
     length l = (if includeLowercase options then 1 else 0) \<and>
     set l \<subseteq> set (lowerChars options) \<and>
     length n = kn \<and> set n \<subseteq> set (numberChars options) \<and>
     length s = ks \<and> set s \<subseteq> set (specialChars options) \<and>
     (\<exists>r1. buildCharset options r = Some (charsetOf options, u @ l @ n @ s, r1)) \<and>
     set fill \<subseteq> set (charsetOf options) \<and> length fill = kf \<and>
     loopCount (jsSub (length_opt options) (Num (real (length (u @ l @ n @ s))))) = Some kf \<and>
     \<not> jsLess (jsSub (length_opt options) (Num (real (length (u @ l @ n @ s))))) (Num 0) \<and>
     \<not> noClass options"
proof -
  have "buildCharset options r \<noteq> None"
    using assms by (auto simp: fillPassword_def split: option.splits)
  then obtain k where k: "requiredCount options = Some k"
    using buildCharset_None[of options r] by auto
  obtain kn ks where c: "classCount (includeNumbers options) (numberCount options) = Some kn"
      "classCount (includeSpecialChars options) (specialCharCount options) = Some ks"
    using requiredCount_Some[OF k] by blast
  obtain u l n s r1 where b: "buildCharset options r = Some (charsetOf options, u @ l @ n @ s, r1)"
    and len: "length u = (if includeUppercase options then 1 else 0)"
      "length l = (if includeLowercase options then 1 else 0)"
      "length n = kn" "length s = ks"
    and sub: "set u \<subseteq> set (upperChars options)" "set l \<subseteq> set (lowerChars options)"
      "set n \<subseteq> set (numberChars options)" "set s \<subseteq> set (specialChars options)"
    using buildCharset_shape[OF c, of r] by blast
  let ?req = "u @ l @ n @ s"
  let ?rem = "jsSub (length_opt options) (Num (real (length ?req)))"
  have ne: "charsetOf options \<noteq> []"
    using assms unfolding fillPassword_def b by (auto split: if_splits)
  then have nc: "\<not> noClass options" using charsetOf_empty_iff[of options] by blast
  have nl: "\<not> jsLess ?rem (Num 0)"
    using assms ne unfolding fillPassword_def b
    by (auto simp: Let_def simp del: length_append split: if_splits)
  have dl: "drawLoop 0 ?rem (charsetOf options) ?req r1 = Some (p, r2)"
    using assms ne nl unfolding fillPassword_def b
    by (auto simp: Let_def simp del: length_append split: if_splits option.splits)
  then obtain kf where kf: "loopCount ?rem = Some kf"
      "drawChars kf (charsetOf options) ?req r1 = (p, r2)"
    by (auto simp: drawLoop_closed)
  obtain fill where fill: "fst (drawChars kf (charsetOf options) ?req r1) = ?req @ fill"
      "length fill = kf" "set fill \<subseteq> set (charsetOf options)"
    using drawChars_appends[OF ne] by blast
  have "p = ?req @ fill" using fill(1) kf(2) by simp
  with c len sub b fill(2,3) kf(1) nl nc show ?thesis by blast
qed

lemma fillPassword_succeeds:
  assumes "\<not> noClass options" "requiredCount options = Some k"
    "\<not> jsLess (length_opt options) (Num (real k))" "length_opt options \<noteq> PosInf"
  shows "\<exists>p r1. fillPassword options r = Some (Inr (p, r1))"
proof -
  obtain req r' where b: "buildCharset options r = Some (charsetOf options, req, r')"
      "length req = k"
    using buildCharset_required[OF assms(2)] by blast
  let ?rem = "jsSub (length_opt options) (Num (real k))"
  have nl: "\<not> jsLess ?rem (Num 0)"
    using assms(3) by (cases "length_opt options") (simp_all add: jsSub_def)
  have "?rem \<noteq> PosInf"
    using assms(4) by (cases "length_opt options") (simp_all add: jsSub_def)
  then obtain kf where "loopCount ?rem = Some kf" by (cases ?rem) simp_all
  then show ?thesis
    using assms(1) charsetOf_empty_iff[of options] b nl
    by (simp add: fillPassword_def drawLoop_closed)
qed

subsection \<open>The generated password\<close>

lemma generatePassword_Inr:
  assumes "generatePassword options r = Some (Inr (pw, r'))"
  shows "\<exists>p r1. fillPassword options r = Some (Inr (p, r1)) \<and> pw = fst (shuffleString p r1)"
  using assms unfolding generatePassword_def
  by (auto split: option.splits sum.splits prod.splits)

lemma generatePassword_succeeds:
  assumes "\<not> noClass options" "requiredCount options = Some k"
    "\<not> jsLess (length_opt options) (Num (real k))" "length_opt options \<noteq> PosInf"
  shows "\<exists>pw r'. generatePassword options r = Some (Inr (pw, r'))"
proof -
  obtain p r1 where "fillPassword options r = Some (Inr (p, r1))"
    using fillPassword_succeeds[OF assms] by blast
  then show ?thesis by (simp add: generatePassword_def prod_eq_iff)
qed

lemma countIn_mset: "mset xs = mset ys \<Longrightarrow> countIn cls xs = countIn cls ys"
  unfolding countIn_def by (metis mset_filter size_mset)

lemma countIn_append: "countIn cls (xs @ ys) = countIn cls xs + countIn cls ys"
  by (simp add: countIn_def)

lemma countIn_all: "set xs \<subseteq> set cls \<Longrightarrow> countIn cls xs = length xs"
  unfolding countIn_def by (simp add: subset_iff)

subsection \<open>Evaluation on concrete inputs\<close>

lemma drawChars_numeral:
  "drawChars (numeral k) chars acc r =
     drawChars (pred_numeral k) chars (strAppend acc (fst (getRandomChar chars r)))
       (snd (getRandomChar chars r))"
  by (simp add: numeral_eq_Suc)

lemma shuffleLoop_numeral:
  "shuffleLoop (numeral k) array r =
     (let i = numeral k; (b, r') = getRandomByte r; j = unat b mod (i + 1)
      in shuffleLoop (pred_numeral k) (array[i := array ! j, j := array ! i]) r')"
  by (simp add: numeral_eq_Suc Let_def)

lemma list_update_numeral:
  "(x # xs)[numeral k := y] = x # xs[pred_numeral k := y]"
  by (simp add: numeral_eq_Suc)

lemma sdrop_numeral: "sdrop (numeral k) s = sdrop (pred_numeral k) (stl s)"
  by (simp add: numeral_eq_Suc)

lemmas gen_eval =
  generatePassword_def fillPassword_def buildCharset_def addUppercase_def addLowercase_def
  addNumbers_def addSpecialChars_def upperChars_def lowerChars_def numberChars_def
  specialChars_def replaceClass_def UPPERCASE_def LOWERCASE_def NUMBERS_def SPECIAL_CHARS_def
  ambiguousClass_def getRandomChar_def getRandomByte_def shuffleString_def charsetOf_def
  Let_def tape_def drawLoop_closed jsSub_def drawChars_numeral shuffleLoop_numeral
  list_update_numeral numeral_2_eq_2[symmetric] sdrop_numeral

lemma optsFull_builds:
  "buildCharset optsFull tape = Some (charsetOf optsFull, ''Oj93!!'', sdrop 6 tape)"
  by (simp add: gen_eval optsFull_def)

lemma optsFull_charset:
  "charsetOf optsFull =
     ''ABCDEFGHJKMNOPQRSTUVWXYZabcdefghjkmnopqrstuvwxyz23456789!@#$%^&*_+-=|:?''"
  by (simp add: gen_eval charsetOf_def optsFull_def)

lemma optsFull_fills:
  "fillPassword optsFull tape = Some (Inr (''Oj93!!'' @ ''E'', sdrop 7 tape))"
  by (simp add: gen_eval optsFull_def)

lemma optsFull_generates:
  "generatePassword optsFull tape = Some (Inr (''!39jEO!'', sconst 5))"
  by (simp add: gen_eval optsFull_def)


subsection \<open>The claims about the generator\<close>

lemma generatePassword_required_counts:
  assumes "generatePassword options r = Some (Inr (pw, r'))"
  shows "\<exists>kn ks.
     classCount (includeNumbers options) (numberCount options) = Some kn \<and>
     classCount (includeSpecialChars options) (specialCharCount options) = Some ks \<and>
     kn \<le> countIn NUMBERS pw \<and> ks \<le> countIn SPECIAL_CHARS pw \<and>
     (if includeUppercase options then 1 else 0) \<le> countIn UPPERCASE pw \<and>
     (if includeLowercase options then 1 else 0) \<le> countIn LOWERCASE pw"
proof -
  obtain p r1 where p: "fillPassword options r = Some (Inr (p, r1))"
      "pw = fst (shuffleString p r1)"
    using assms generatePassword_Inr by blast
  obtain u l n s fill kn ks where sh:
      "classCount (includeNumbers options) (numberCount options) = Some kn"
      "classCount (includeSpecialChars options) (specialCharCount options) = Some ks"
      "p = (u @ l @ n @ s) @ fill"
      "length u = (if includeUppercase options then 1 else 0)"
      "set u \<subseteq> set (upperChars options)"
      "length l = (if includeLowercase options then 1 else 0)"
      "set l \<subseteq> set (lowerChars options)"
      "length n = kn" "set n \<subseteq> set (numberChars options)"
      "length s = ks" "set s \<subseteq> set (specialChars options)"
    using fillPassword_ok[OF p(1)] by blast
  have cnt: "countIn cls pw = countIn cls u + countIn cls l + countIn cls n + countIn cls s
      + countIn cls fill" for cls
    using countIn_mset[OF shuffleString_mset[of p r1], of cls] p(2) sh(3)
    by (simp add: countIn_append)
  have cu: "countIn UPPERCASE u = length u" using sh(5) alphabet_subset(1)
    by (intro countIn_all) blast
  have cl: "countIn LOWERCASE l = length l" using sh(7) alphabet_subset(2)
    by (intro countIn_all) blast
  have cn: "countIn NUMBERS n = length n" using sh(9) alphabet_subset(3)
    by (intro countIn_all) blast
  have cs: "countIn SPECIAL_CHARS s = length s" using sh(11) alphabet_subset(4)
    by (intro countIn_all) blast
  have "kn \<le> countIn NUMBERS pw" using cnt[of NUMBERS] cn sh(8) by simp
  moreover have "ks \<le> countIn SPECIAL_CHARS pw" using cnt[of SPECIAL_CHARS] cs sh(10) by simp
  moreover have "(if includeUppercase options then 1 else 0) \<le> countIn UPPERCASE pw"
    using cnt[of UPPERCASE] cu sh(4) by simp
  moreover have "(if includeLowercase options then 1 else 0) \<le> countIn LOWERCASE pw"
    using cnt[of LOWERCASE] cl sh(6) by simp
  ultimately show ?thesis using sh(1,2) by blast
qed

lemma generatePassword_Inr_length:
  assumes "generatePassword options r = Some (Inr (pw, r'))" "length_opt options = Num L"
  shows "int (length pw) = \<lceil>L\<rceil>"
proof -
  obtain p r1 where p: "fillPassword options r = Some (Inr (p, r1))"
      "pw = fst (shuffleString p r1)"
    using assms(1) generatePassword_Inr by blast
  obtain req fill kf where sh: "p = req @ fill" "length fill = kf"
      "loopCount (jsSub (length_opt options) (Num (real (length req)))) = Some kf"
      "\<not> jsLess (jsSub (length_opt options) (Num (real (length req)))) (Num 0)"
    using fillPassword_ok[OF p(1)] by blast
  have ge: "0 \<le> L - real (length req)" using sh(4) assms(2) by (simp add: jsSub_def)
  have "kf = nat \<lceil>L - real (length req)\<rceil>" using sh(3) assms(2) by (simp add: jsSub_def)
  moreover have "\<lceil>L - real (length req)\<rceil> = \<lceil>L\<rceil> - int (length req)"
    using ceiling_diff_of_int[of L "int (length req)"] by simp
  moreover have "0 \<le> \<lceil>L - real (length req)\<rceil>" using ge by simp
  ultimately have "int kf = \<lceil>L\<rceil> - int (length req)" by simp
  then have "int (length p) = \<lceil>L\<rceil>" using sh(1,2) by simp
  then show ?thesis using p(2) by (simp add: shuffleString_length)
qed




text \<open>
  Claim C8. A password generated with \<open>includeNumbers\<close> and \<open>numberCount = n\<close>,
  \<open>n \<ge> 1\<close>, holds at least \<open>n\<close> digits; with \<open>includeSpecialChars\<close> and
  \<open>specialCharCount = m\<close>, \<open>m \<ge> 1\<close>, at least \<open>m\<close> special characters; and at least one
  character of each enabled letter class.
\<close>

theorem generatePassword_classes:
  "generatePassword options r = Some (Inr (pw, r')) \<longrightarrow>
     (includeNumbers options \<and> numberCount options = Some (Num n) \<and> 1 \<le> n \<longrightarrow>
        n \<le> real (countIn NUMBERS pw)) \<and>
     (includeSpecialChars options \<and> specialCharCount options = Some (Num m) \<and> 1 \<le> m \<longrightarrow>
        m \<le> real (countIn SPECIAL_CHARS pw)) \<and>
     (includeUppercase options \<longrightarrow> 1 \<le> countIn UPPERCASE pw) \<and>
     (includeLowercase options \<longrightarrow> 1 \<le> countIn LOWERCASE pw)"
proof
  assume ok: "generatePassword options r = Some (Inr (pw, r'))"
  obtain kn ks where rc:
      "classCount (includeNumbers options) (numberCount options) = Some kn"
      "classCount (includeSpecialChars options) (specialCharCount options) = Some ks"
      "kn \<le> countIn NUMBERS pw" "ks \<le> countIn SPECIAL_CHARS pw"
      "(if includeUppercase options then 1 else 0) \<le> countIn UPPERCASE pw"
      "(if includeLowercase options then 1 else 0) \<le> countIn LOWERCASE pw"
    using generatePassword_required_counts[OF ok] by blast
  show "(includeNumbers options \<and> numberCount options = Some (Num n) \<and> 1 \<le> n \<longrightarrow>
        n \<le> real (countIn NUMBERS pw)) \<and>
     (includeSpecialChars options \<and> specialCharCount options = Some (Num m) \<and> 1 \<le> m \<longrightarrow>
        m \<le> real (countIn SPECIAL_CHARS pw)) \<and>
     (includeUppercase options \<longrightarrow> 1 \<le> countIn UPPERCASE pw) \<and>
     (includeLowercase options \<longrightarrow> 1 \<le> countIn LOWERCASE pw)"
  proof (intro conjI impI)
    assume a: "includeNumbers options \<and> numberCount options = Some (Num n) \<and> 1 \<le> n"
    then have "kn = nat \<lceil>n\<rceil>" using rc(1) by (simp add: classCount_def)
    moreover have "n \<le> real_of_int \<lceil>n\<rceil>" by (rule le_of_int_ceiling)
    moreover have "0 \<le> \<lceil>n\<rceil>" using a by linarith
    ultimately have "n \<le> real kn" by simp
    then show "n \<le> real (countIn NUMBERS pw)" using rc(3) by linarith
  next
    assume a: "includeSpecialChars options \<and> specialCharCount options = Some (Num m) \<and> 1 \<le> m"
    then have "ks = nat \<lceil>m\<rceil>" using rc(2) by (simp add: classCount_def)
    moreover have "m \<le> real_of_int \<lceil>m\<rceil>" by (rule le_of_int_ceiling)
    moreover have "0 \<le> \<lceil>m\<rceil>" using a by linarith
    ultimately have "m \<le> real ks" by simp
    then show "m \<le> real (countIn SPECIAL_CHARS pw)" using rc(4) by linarith
  next
    assume "includeUppercase options"
    then show "1 \<le> countIn UPPERCASE pw" using rc(5) by simp
  next
    assume "includeLowercase options"
    then show "1 \<le> countIn LOWERCASE pw" using rc(6) by simp
  qed
qed

theorem generatePassword_classes_witness:
  "generatePassword optsFull tape = Some (Inr (''!39jEO!'', sconst 5)) \<and>
   includeNumbers optsFull \<and> numberCount optsFull = Some (Num 2) \<and>
   2 \<le> real (countIn NUMBERS ''!39jEO!'') \<and>
   includeSpecialChars optsFull \<and> specialCharCount optsFull = Some (Num 2) \<and>
   2 \<le> real (countIn SPECIAL_CHARS ''!39jEO!'') \<and>
   includeUppercase optsFull \<and> 1 \<le> countIn UPPERCASE ''!39jEO!'' \<and>
   includeLowercase optsFull \<and> 1 \<le> countIn LOWERCASE ''!39jEO!''"
proof -
  note 1 = optsFull_generates
  have 2: "includeNumbers optsFull \<and> numberCount optsFull = Some (Num 2) \<and>
      includeSpecialChars optsFull \<and> specialCharCount optsFull = Some (Num 2) \<and>
      includeUppercase optsFull \<and> includeLowercase optsFull"
    by (simp add: optsFull_def)
  show ?thesis
    using 1 2 generatePassword_classes[of optsFull tape "''!39jEO!''" "sconst 5" 2 2]
    by simp
qed

text \<open>
  Claim C9. With \<open>includeNumbers\<close> and a \<open>numberCount\<close> that is \<open>0\<close> or absent, the
  number branch appends exactly one character, a digit, to the required characters, and
  a generated password holds a digit; likewise for \<open>specialCharCount\<close> under
  \<open>includeSpecialChars\<close>. (A negative count is truthy: its loop does not run.)
\<close>

theorem zero_count_is_one:
  "(includeNumbers options \<and>
      (numberCount options = None \<or> numberCount options = Some (Num 0)) \<longrightarrow>
      (\<exists>d r'. addNumbers options (charset, requiredChars, r) =
                Some (charset @ numberChars options, requiredChars @ [d], r') \<and>
              d \<in> set NUMBERS)) \<and>
   (includeSpecialChars options \<and>
      (specialCharCount options = None \<or> specialCharCount options = Some (Num 0)) \<longrightarrow>
      (\<exists>d r'. addSpecialChars options (charset, requiredChars, r) =
                Some (charset @ specialChars options, requiredChars @ [d], r') \<and>
              d \<in> set SPECIAL_CHARS)) \<and>
   (generatePassword options r0 = Some (Inr (pw, r1)) \<and> includeNumbers options \<and>
      (numberCount options = None \<or> numberCount options = Some (Num 0)) \<longrightarrow>
      1 \<le> countIn NUMBERS pw) \<and>
   (generatePassword options r0 = Some (Inr (pw, r1)) \<and> includeSpecialChars options \<and>
      (specialCharCount options = None \<or> specialCharCount options = Some (Num 0)) \<longrightarrow>
      1 \<le> countIn SPECIAL_CHARS pw)"
proof (intro conjI impI)
  assume a: "includeNumbers options \<and>
    (numberCount options = None \<or> numberCount options = Some (Num 0))"
  then have one: "classCount (includeNumbers options) (numberCount options) = Some 1"
    by (auto simp: classCount_def)
  obtain u r' where u: "addNumbers options (charset, requiredChars, r) =
       Some (charset @ (if includeNumbers options then numberChars options else []),
        requiredChars @ u, r')"
      "length u = 1" "set u \<subseteq> set (numberChars options)"
    using addNumbers_shape[OF one] by blast
  from u(2) obtain d where d: "u = [d]" by (cases u) auto
  then have "d \<in> set NUMBERS" using u(3) alphabet_subset(3) by auto
  then show "\<exists>d r'. addNumbers options (charset, requiredChars, r) =
                Some (charset @ numberChars options, requiredChars @ [d], r') \<and>
              d \<in> set NUMBERS"
    using u(1) a d by auto
next
  assume a: "includeSpecialChars options \<and>
    (specialCharCount options = None \<or> specialCharCount options = Some (Num 0))"
  then have one: "classCount (includeSpecialChars options) (specialCharCount options) = Some 1"
    by (auto simp: classCount_def)
  obtain u r' where u: "addSpecialChars options (charset, requiredChars, r) =
       Some (charset @ (if includeSpecialChars options then specialChars options else []),
        requiredChars @ u, r')"
      "length u = 1" "set u \<subseteq> set (specialChars options)"
    using addSpecialChars_shape[OF one] by blast
  from u(2) obtain d where d: "u = [d]" by (cases u) auto
  then have "d \<in> set SPECIAL_CHARS" using u(3) alphabet_subset(4) by auto
  then show "\<exists>d r'. addSpecialChars options (charset, requiredChars, r) =
                Some (charset @ specialChars options, requiredChars @ [d], r') \<and>
              d \<in> set SPECIAL_CHARS"
    using u(1) a d by auto
next
  assume a: "generatePassword options r0 = Some (Inr (pw, r1)) \<and> includeNumbers options \<and>
      (numberCount options = None \<or> numberCount options = Some (Num 0))"
  then have "classCount (includeNumbers options) (numberCount options) = Some 1"
    by (auto simp: classCount_def)
  then show "1 \<le> countIn NUMBERS pw"
    using a generatePassword_required_counts[of options r0 pw r1] by auto
next
  assume a: "generatePassword options r0 = Some (Inr (pw, r1)) \<and>
      includeSpecialChars options \<and>
      (specialCharCount options = None \<or> specialCharCount options = Some (Num 0))"
  then have "classCount (includeSpecialChars options) (specialCharCount options) = Some 1"
    by (auto simp: classCount_def)
  then show "1 \<le> countIn SPECIAL_CHARS pw"
    using a generatePassword_required_counts[of options r0 pw r1] by auto
qed

theorem zero_count_is_one_witness:
  "includeNumbers optsZero \<and> numberCount optsZero = Some (Num 0) \<and>
   includeSpecialChars optsZero \<and> specialCharCount optsZero = None \<and>
   addNumbers optsZero (''xy'', ''ab'', tape) = Some (''xy0123456789'', ''ab2'', stl tape) \<and>
   addSpecialChars optsZero (''xy'', ''ab'', tape) =
     Some (''xy!@#$%^&*()_+-=[]{}|;:,.<>?'', ''ab-'', stl tape) \<and>
   generatePassword optsZero tape = Some (Inr (''|72'', sdrop 5 tape)) \<and>
   1 \<le> countIn NUMBERS ''|72'' \<and> 1 \<le> countIn SPECIAL_CHARS ''|72''"
proof -
  have 1: "includeNumbers optsZero \<and> numberCount optsZero = Some (Num 0) \<and>
      includeSpecialChars optsZero \<and> specialCharCount optsZero = None"
    by (simp add: optsZero_def)
  have 2: "generatePassword optsZero tape = Some (Inr (''|72'', sdrop 5 tape))"
    by (simp add: gen_eval optsZero_def)
  have 3: "addNumbers optsZero (''xy'', ''ab'', tape) =
      Some (''xy0123456789'', ''ab2'', stl tape)"
    by (simp add: gen_eval optsZero_def)
  have 4: "addSpecialChars optsZero (''xy'', ''ab'', tape) =
     Some (''xy!@#$%^&*()_+-=[]{}|;:,.<>?'', ''ab-'', stl tape)"
    by (simp add: gen_eval optsZero_def)
  show ?thesis
    using 1 2 3 4
      zero_count_is_one[of optsZero "''xy''" "''ab''" tape tape "''|72''" "sdrop 5 tape"]
    by simp
qed

text \<open>
  Claim C10. \<open>shuffleString\<close> returns a permutation of its input: the same length and
  the same multiset of characters. Hence a generated password is a rearrangement of the
  required characters followed by the fill characters, drawn from the character set.
\<close>

theorem shuffleString_permutation:
  "mset (fst (shuffleString str r)) = mset str \<and>
   length (fst (shuffleString str r)) = length str \<and>
   (generatePassword options r0 = Some (Inr (pw, r1)) \<longrightarrow>
     (\<exists>req fill ra rb.
        buildCharset options r0 = Some (charsetOf options, req, ra) \<and>
        fillPassword options r0 = Some (Inr (req @ fill, rb)) \<and>
        set fill \<subseteq> set (charsetOf options) \<and>
        mset pw = mset (req @ fill)))"
proof (intro conjI impI)
  show "mset (fst (shuffleString str r)) = mset str" by (rule shuffleString_mset)
  show "length (fst (shuffleString str r)) = length str" by (rule shuffleString_length)
next
  assume "generatePassword options r0 = Some (Inr (pw, r1))"
  then obtain p r2 where p: "fillPassword options r0 = Some (Inr (p, r2))"
      "pw = fst (shuffleString p r2)"
    using generatePassword_Inr by blast
  obtain u l n s fill ra where sh: "p = (u @ l @ n @ s) @ fill"
      "buildCharset options r0 = Some (charsetOf options, u @ l @ n @ s, ra)"
      "set fill \<subseteq> set (charsetOf options)"
    using fillPassword_ok[OF p(1)] by blast
  have "mset pw = mset p" using p(2) by (simp add: shuffleString_mset)
  then have "buildCharset options r0 = Some (charsetOf options, u @ l @ n @ s, ra) \<and>
        fillPassword options r0 = Some (Inr ((u @ l @ n @ s) @ fill, r2)) \<and>
        set fill \<subseteq> set (charsetOf options) \<and>
        mset pw = mset ((u @ l @ n @ s) @ fill)"
    using p(1) sh by simp
  then show "\<exists>req fill ra rb.
        buildCharset options r0 = Some (charsetOf options, req, ra) \<and>
        fillPassword options r0 = Some (Inr (req @ fill, rb)) \<and>
        set fill \<subseteq> set (charsetOf options) \<and>
        mset pw = mset (req @ fill)"
    by blast
qed

theorem shuffleString_permutation_witness:
  "shuffleString ''abcde'' tape = (''debac'', sdrop 4 tape) \<and>
   mset ''debac'' = mset ''abcde'' \<and>
   generatePassword optsFull tape = Some (Inr (''!39jEO!'', sconst 5)) \<and>
   buildCharset optsFull tape = Some (charsetOf optsFull, ''Oj93!!'', sdrop 6 tape) \<and>
   charsetOf optsFull =
     ''ABCDEFGHJKMNOPQRSTUVWXYZabcdefghjkmnopqrstuvwxyz23456789!@#$%^&*_+-=|:?'' \<and>
   fillPassword optsFull tape = Some (Inr (''Oj93!!'' @ ''E'', sdrop 7 tape)) \<and>
   mset ''!39jEO!'' = mset (''Oj93!!'' @ ''E'')"
proof -
  have 1: "shuffleString ''abcde'' tape = (''debac'', sdrop 4 tape)"
    by (simp add: gen_eval)
  note 2 = optsFull_generates
  note 3 = optsFull_builds
  note 4 = optsFull_fills
  have 5: "mset ''debac'' = mset ''abcde''"
    using shuffleString_permutation[of "''abcde''" tape optsFull tape "''!39jEO!''" "sconst 5"] 1
    by simp
  have 6: "mset ''!39jEO!'' = mset (''Oj93!!'' @ ''E'')"
    using shuffleString_permutation[of "''abcde''" tape optsFull tape "''!39jEO!''" "sconst 5"]
      2 3 4 by simp
  show ?thesis using 1 2 3 4 5 6 optsFull_charset by blast
qed

text \<open>
  Claim C5, at a failing input. With \<open>excludeSimilar\<close> set and only the uppercase class
  enabled, the random byte 12 selects the capital letter O, one of the similar characters:
  the source deletes \<^verbatim>\<open>[IL]\<close>, \<^verbatim>\<open>[il]\<close> and \<^verbatim>\<open>[10]\<close> only, so \<open>o\<close> and \<open>O\<close> stay
  in the alphabets.
\<close>

theorem excludeSimilar_keeps_capital_O:
  "excludeSimilar optsUpper \<and>
   generatePassword optsUpper tape = Some (Inr (''O'', stl tape)) \<and>
   CHR ''O'' \<in> set SIMILAR_CHARS"
  by (simp add: gen_eval optsUpper_def SIMILAR_CHARS_def)

text \<open>
  What the exclusion does achieve: every character of a generated password comes from
  the character set, and under \<open>excludeSimilar\<close> none of them is one of \<open>i I l L 1 0\<close>.
\<close>

lemma generatePassword_chars:
  assumes "generatePassword options r = Some (Inr (pw, r'))"
  shows "set pw \<subseteq> set (charsetOf options)"
proof -
  obtain p r1 where p: "fillPassword options r = Some (Inr (p, r1))"
      "pw = fst (shuffleString p r1)"
    using assms generatePassword_Inr by blast
  obtain u l n s fill kn ks where sh: "p = (u @ l @ n @ s) @ fill"
      "length u = (if includeUppercase options then 1 else 0)"
      "set u \<subseteq> set (upperChars options)"
      "length l = (if includeLowercase options then 1 else 0)"
      "set l \<subseteq> set (lowerChars options)"
      "classCount (includeNumbers options) (numberCount options) = Some kn"
      "length n = kn" "set n \<subseteq> set (numberChars options)"
      "classCount (includeSpecialChars options) (specialCharCount options) = Some ks"
      "length s = ks" "set s \<subseteq> set (specialChars options)"
      "set fill \<subseteq> set (charsetOf options)"
    using fillPassword_ok[OF p(1)] by blast
  have "set u \<subseteq> set (charsetOf options)"
    using sh(2,3) unfolding charsetOf_def by (cases "includeUppercase options") auto
  moreover have "set l \<subseteq> set (charsetOf options)"
    using sh(4,5) unfolding charsetOf_def by (cases "includeLowercase options") auto
  moreover have "set n \<subseteq> set (charsetOf options)"
    using sh(6,7,8) unfolding charsetOf_def classCount_def
    by (cases "includeNumbers options") auto
  moreover have "set s \<subseteq> set (charsetOf options)"
    using sh(9,10,11) unfolding charsetOf_def classCount_def
    by (cases "includeSpecialChars options") auto
  moreover have "set pw = set p"
    using p(2) shuffleString_mset[of p r1] by (metis set_mset_mset)
  ultimately show ?thesis using sh(1,12) by auto
qed

lemma excludeSimilar_excludes:
  assumes "generatePassword options r = Some (Inr (pw, r'))" "excludeSimilar options"
  shows "set pw \<inter> set ''iIlL10'' = {}"
proof -
  have "set (upperChars options) \<inter> set ''iIlL10'' = {}"
    "set (lowerChars options) \<inter> set ''iIlL10'' = {}"
    "set (numberChars options) \<inter> set ''iIlL10'' = {}"
    using assms(2)
    by (simp_all add: upperChars_def lowerChars_def numberChars_def replaceClass_def
        UPPERCASE_def LOWERCASE_def NUMBERS_def)
  moreover have "set (specialChars options) \<inter> set ''iIlL10'' = {}"
    by (simp add: specialChars_def replaceClass_def SPECIAL_CHARS_def ambiguousClass_def)
  ultimately have "set (charsetOf options) \<inter> set ''iIlL10'' = {}"
    unfolding charsetOf_def by auto
  then show ?thesis using generatePassword_chars[OF assms(1)] by blast
qed

text \<open>
  The default options succeed on every random tape: sixteen characters, at least two
  digits and two special characters, none of \<open>i I l L 1 0\<close>.
\<close>

lemma default_options_generate:
  "\<exists>pw r'. generatePassword DEFAULT_PASSWORD_OPTIONS r = Some (Inr (pw, r')) \<and>
     length pw = 16 \<and> 2 \<le> countIn NUMBERS pw \<and> 2 \<le> countIn SPECIAL_CHARS pw \<and>
     set pw \<inter> set ''iIlL10'' = {}"
proof -
  have rc: "requiredCount DEFAULT_PASSWORD_OPTIONS = Some 6"
    by (simp add: requiredCount_def classCount_def DEFAULT_PASSWORD_OPTIONS_def)
  have "\<not> noClass DEFAULT_PASSWORD_OPTIONS"
    "\<not> jsLess (length_opt DEFAULT_PASSWORD_OPTIONS) (Num (real (6::nat)))"
    "length_opt DEFAULT_PASSWORD_OPTIONS \<noteq> PosInf"
    by (simp_all add: noClass_def DEFAULT_PASSWORD_OPTIONS_def)
  then obtain pw r' where g:
      "generatePassword DEFAULT_PASSWORD_OPTIONS r = Some (Inr (pw, r'))"
    using generatePassword_succeeds[OF _ rc] by blast
  have "int (length pw) = \<lceil>16 :: real\<rceil>"
    using generatePassword_Inr_length[OF g] by (simp add: DEFAULT_PASSWORD_OPTIONS_def)
  then have "length pw = 16" by simp
  moreover have "2 \<le> countIn NUMBERS pw" "2 \<le> countIn SPECIAL_CHARS pw"
    using generatePassword_required_counts[OF g]
    by (auto simp: classCount_def DEFAULT_PASSWORD_OPTIONS_def)
  moreover have "set pw \<inter> set ''iIlL10'' = {}"
    using g by (rule excludeSimilar_excludes) (simp add: DEFAULT_PASSWORD_OPTIONS_def)
  ultimately show ?thesis using g by auto
qed

section \<open>Properties of the strength estimator\<close>

text \<open>
  Claim C6, at a failing input. On the empty string \<^verbatim>\<open>new Set(password).size\<close> is 0,
  \<^verbatim>\<open>Math.log2(0)\<close> is \<^verbatim>\<open>-Infinity\<close>, and \<^verbatim>\<open>0 * -Infinity\<close> is \<^verbatim>\<open>NaN\<close>, which
  \<^verbatim>\<open>Math.min\<close> and \<^verbatim>\<open>Math.max\<close> hand on: the score is \<^verbatim>\<open>NaN\<close>, outside every
  interval, and since each comparison with it is false the label is Strong.
\<close>

theorem estimatePasswordStrength_empty:
  "estimatePasswordStrength [] = \<lparr>score = NaN, label = ''Strong'', color = ''primary''\<rparr>"
  by (simp add: estimatePasswordStrength_def baseScore_def hasCommonPattern_def)

text \<open>
  On every other string the score is finite, lies between 0 and 100, and the label
  follows the bands.
\<close>

lemma estimatePasswordStrength_nonempty:
  assumes "password \<noteq> []"
  shows "\<exists>s. score (estimatePasswordStrength password) = Num s \<and> 0 \<le> s \<and> s \<le> 100 \<and>
    label (estimatePasswordStrength password) =
      (if s < 30 then ''Weak'' else if s < 60 then ''Fair''
       else if s < 80 then ''Good'' else ''Strong'')"
proof -
  have "remdups password \<noteq> []" using assms by simp
  then have u: "real (length (remdups password)) > 0" by simp
  define e where "e = real (length password) * log 2 (real (length (remdups password)))"
  define t where "t = baseScore password + (if 25 < e / 4 then 25 else e / 4)"
  define s where "s = (if (if t < 100 then t else 100) < 0 then 0 else (if t < 100 then t else 100))"
  have ent: "jsMul (Num (real (length password)))
      (Math_log2 (Num (real (length (remdups password))))) = Num e"
    using u by (simp add: e_def)
  have sc: "Math_max (Num 0) (Math_min (Num 100)
      (jsAdd (Num (baseScore password)) (Math_min (jsDivBy (Num e) 4) (Num 25)))) = Num s"
    by (simp add: s_def t_def)
  have rng: "0 \<le> s \<and> s \<le> 100" by (simp add: s_def)
  have "score (estimatePasswordStrength password) = Num s \<and>
    label (estimatePasswordStrength password) =
      (if s < 30 then ''Weak'' else if s < 60 then ''Fair''
       else if s < 80 then ''Good'' else ''Strong'')"
    unfolding estimatePasswordStrength_def Let_def ent sc by simp
  with rng show ?thesis by blast
qed

text \<open>The estimator on a password of eight equal letters.\<close>

lemma estimate_repeated:
  "estimatePasswordStrength ''aaaaaaaa'' =
     \<lparr>score = Num 20, label = ''Weak'', color = ''destructive''\<rparr>"
  by (simp add: estimatePasswordStrength_def baseScore_def hasCommonPattern_def
      isLower_def isUpper_def isDigit_def isOther_def toLower_def)

section \<open>Properties of encryption and storage\<close>

lemma getProp_envelope:
  "getProp (envelopeJson E) ''salt'' = Inr (Some (JString (salt E)))"
  "getProp (envelopeJson E) ''data'' = Inr (Some (JString (data E)))"
  "getProp (envelopeJson E) ''iv'' = Inr (Some (JString (iv E)))"
  by (simp_all add: envelopeJson_def)

lemma decryptData_envelope:
  "decryptData L (envelopeJson E) P =
     (case deriveKey L P (Some (JString (salt E))) of
        Inl e \<Rightarrow> Inl e
      | Inr key \<Rightarrow> AES_decrypt L (Some (JString (data E))) key (Some (JString (iv E))))"
  by (simp add: decryptData_def getProp_envelope split: sum.splits)

lemma encryptData_Inr:
  assumes "encryptData L d P r = Inr (E, r')"
  shows "\<exists>key. deriveKey L P (Some (JString (salt E))) = Inr key \<and>
     data E = fst (AES_encrypt L d key (iv E) (snd (generateIV L (snd (generateSalt L r))))) \<and>
     salt E = fst (generateSalt L r) \<and>
     iv E = fst (generateIV L (snd (generateSalt L r)))"
  using assms
  by (auto simp: encryptData_def split_beta Let_def split: sum.splits)

lemma encryptData_succeeds:
  assumes "kdfReturns L"
  shows "\<exists>E r'. encryptData L d P r = Inr (E, r')"
proof (cases "deriveKey L P (Some (JString (fst (generateSalt L r))))")
  case (Inl e)
  with assms show ?thesis by (simp add: kdfReturns_def)
next
  case (Inr key)
  then show ?thesis by (simp add: encryptData_def split_beta Let_def)
qed

lemma decrypt_encrypt:
  assumes "cipherInverts L" "encryptData L d P r = Inr (E, r')"
  shows "decryptData L (envelopeJson E) P = Inr d"
proof -
  obtain key where k: "deriveKey L P (Some (JString (salt E))) = Inr key"
    "data E = fst (AES_encrypt L d key (iv E) (snd (generateIV L (snd (generateSalt L r)))))"
    using encryptData_Inr[OF assms(2)] by blast
  have "AES_decrypt L (Some (JString (data E))) key (Some (JString (iv E))) = Inr d"
    using assms(1) unfolding cipherInverts_def k(2) by simp
  then show ?thesis by (simp add: decryptData_envelope k(1))
qed

text \<open>The fields of the envelope reach the library unchecked, whatever their kind.\<close>

lemma decryptData_unchecked:
  "decryptData L (JObject [(''data'', c), (''iv'', JNumber 7), (''salt'', s)]) P =
     (case deriveKey L P (Some s) of
        Inl e \<Rightarrow> Inl e
      | Inr key \<Rightarrow> AES_decrypt L (Some c) key (Some (JNumber 7)))"
  "decryptData L (JObject []) P =
     (case deriveKey L P None of Inl e \<Rightarrow> Inl e | Inr key \<Rightarrow> AES_decrypt L None key None)"
  "decryptData L JNull P = Inl TypeError"
  by (simp_all add: decryptData_def split: sum.splits)

lemma decrypt_same_key:
  assumes "deriveKey L P2 (Some (JString (salt E))) = deriveKey L P1 (Some (JString (salt E)))"
  shows "decryptData L (envelopeJson E) P2 = decryptData L (envelopeJson E) P1"
  using assms by (simp add: decryptData_envelope)


lemma storeVaultData_Inr:
  assumes "storeVaultData L V P prefs r = Inr (prefs', r')"
  shows "\<exists>E. encryptData L (JSON_stringify L (vaultJson V)) P r = Inr (E, r') \<and>
     prefs' = prefs(VAULT_DATA \<mapsto> JSON_stringify L (envelopeJson E))"
  using assms
  by (auto simp: storeVaultData_def Let_def split: sum.splits)

lemma storeVaultData_succeeds:
  assumes "kdfReturns L"
  shows "\<exists>prefs' r'. storeVaultData L V P prefs r = Inr (prefs', r')"
proof -
  obtain E r' where "encryptData L (JSON_stringify L (vaultJson V)) P r = Inr (E, r')"
    using encryptData_succeeds[OF assms] by blast
  then show ?thesis by (simp add: storeVaultData_def)
qed

lemma storeVaultData_fails:
  "storeVaultData L V P prefs r = Inl e \<Longrightarrow> e = saveFailed"
  by (auto simp: storeVaultData_def Let_def split: sum.splits)

lemma getVaultData_fails:
  "getVaultData L P prefs = Inl e \<Longrightarrow> e = decryptFailed"
  by (auto simp: getVaultData_def split: option.splits if_splits sum.splits)

lemma getVaultData_stored_envelope:
  assumes "jsonInverts L"
  shows "getVaultData L P2 (prefs(VAULT_DATA \<mapsto> JSON_stringify L (envelopeJson E))) =
     (case decryptData L (envelopeJson E) P2 of
        Inl e \<Rightarrow> Inl decryptFailed
      | Inr t \<Rightarrow> (case JSON_parse L t of Inl e \<Rightarrow> Inl decryptFailed | Inr v \<Rightarrow> Inr v))"
  using assms unfolding jsonInverts_def
  by (simp add: getVaultData_def)

lemma open_sealed:
  assumes "cipherInverts L" "jsonInverts L"
    "storeVaultData L V P1 prefs r = Inr (prefs', r')"
    "\<And>s. deriveKey L P2 s = deriveKey L P1 s"
  shows "getVaultData L P2 prefs' = Inr (vaultJson V)"
proof -
  obtain E where e: "encryptData L (JSON_stringify L (vaultJson V)) P1 r = Inr (E, r')"
    "prefs' = prefs(VAULT_DATA \<mapsto> JSON_stringify L (envelopeJson E))"
    using storeVaultData_Inr[OF assms(3)] by blast
  have "decryptData L (envelopeJson E) P2 = decryptData L (envelopeJson E) P1"
    by (rule decrypt_same_key) (rule assms(4))
  also have "\<dots> = Inr (JSON_stringify L (vaultJson V))"
    using assms(1) e(1) by (rule decrypt_encrypt)
  finally have d: "decryptData L (envelopeJson E) P2 = Inr (JSON_stringify L (vaultJson V))" .
  have "JSON_parse L (JSON_stringify L (vaultJson V)) = Inr (vaultJson V)"
    using assms(2) by (simp add: jsonInverts_def)
  then show ?thesis
    unfolding e(2) getVaultData_stored_envelope[OF assms(2)] d by simp
qed

lemma nothing_stored: "getVaultData L P Map.empty = Inr JNull"
  by (simp add: getVaultData_def)

subsection \<open>The value of a vault determines the vault\<close>

lemma map_JString_inj: "map JString xs = map JString ys \<Longrightarrow> xs = ys"
  by (simp add: inj_map_eq_map inj_on_def)

lemma entryJson_inj: "entryJson a = entryJson b \<Longrightarrow> a = b"
  by (cases a, cases b) (auto simp: entryJson_def dest: map_JString_inj)

lemma map_entryJson_inj: "map entryJson xs = map entryJson ys \<Longrightarrow> xs = ys"
proof (induction xs arbitrary: ys)
  case Nil
  then show ?case by simp
next
  case (Cons x xs)
  then obtain y ys' where "ys = y # ys'" by (cases ys) auto
  with Cons show ?case by (auto dest: entryJson_inj)
qed

lemma vaultJson_inj: "vaultJson W = vaultJson V \<Longrightarrow> W = V"
  by (cases W, cases V) (auto simp: vaultJson_def dest: map_entryJson_inj)

lemma sampleVault_value:
  "vaultJson sampleVault = JObject
     [(''entries'', JArray [JObject
        [(''id'', JString ''1''), (''title'', JString ''Mail''),
         (''website'', JString ''mail.example''), (''username'', JString ''ann''),
         (''password'', JString ''Tr7!qX9#mZ2$''), (''notes'', JString ''''),
         (''createdAt'', JString ''2024-01-01''), (''updatedAt'', JString ''2024-01-02''),
         (''tags'', JArray [JString ''work'', JString ''mail''])]]),
      (''version'', JString ''1.0.0'')]"
  by (simp add: vaultJson_def entryJson_def sampleVault_def)

subsection \<open>The small library meets the demands\<close>

lemma toy_shift_back:
  assumes "n < 256"
  shows "char_of ((of_char c + n) mod 256 + (256 - n) :: nat) = c"
proof -
  let ?a = "of_char c :: nat"
  have "(char_of ((?a + n) mod 256 + (256 - n)) :: char) =
      char_of (((?a + n) mod 256 + (256 - n)) mod 256)"
    by (simp only: char_of_mod_256)
  also have "((?a + n) mod 256 + (256 - n)) mod 256 = (?a + n + (256 - n)) mod 256"
    by (simp only: mod_add_left_eq)
  also have "?a + n + (256 - n) = ?a + 256" using assms by simp
  also have "(?a + 256) mod 256 = ?a mod 256" by simp
  finally have "(char_of ((?a + n) mod 256 + (256 - n)) :: char) = char_of (?a mod 256)" .
  then show ?thesis by (simp add: char_of_mod_256)
qed

lemma toyShift_less: "toyShift k < 256"
  by (simp add: toyShift_def)

lemma toy_decrypt_encrypt:
  "map (\<lambda>x. char_of ((of_char x + toyShift k) mod 256 + (256 - toyShift k))) d = d"
  by (induction d) (simp_all add: toy_shift_back[OF toyShift_less])

lemma toy_cipherInverts: "cipherInverts toyLib"
  by (simp add: cipherInverts_def toyLib_def toyEncrypt_def toyDecrypt_def o_def
      toy_decrypt_encrypt)

lemma toy_jsonInverts: "jsonInverts toyLib"
  by (simp add: jsonInverts_def toyLib_def toyStringify_def toyParse_def)

lemma toy_kdfReturns: "kdfReturns toyLib"
  by (simp add: kdfReturns_def deriveKey_def toyLib_def toyPBKDF2_def)



text \<open>The key of the small library depends on the salt and on every character.\<close>

lemma toy_key_uses_salt:
  "deriveKey toyLib ''a'' (Some (JString ''00'')) \<noteq> deriveKey toyLib ''a'' (Some (JString ''01''))"
  by (simp add: deriveKey_def toyLib_def toyPBKDF2_def toyKey_def upt_rec[of 0] hexByte_def
      hexDigits_def)

lemma toy_key_needs_string: "deriveKey toyLib P None = Inl TypeError"
  by (simp add: deriveKey_def toyLib_def toyPBKDF2_def)

subsection \<open>Validation\<close>




lemma validate_null: "\<not> validateMasterPassword L P JNull"
  by (simp add: validateMasterPassword_def decryptData_def)

text \<open>
  Claim C1. For a cipher whose decryption inverts its encryption under the same key, and
  a JSON object whose parser returns the value of a vault or an envelope from its text:
  decrypting what \<open>encryptData\<close> returned, with the same password, returns the
  plaintext; \<open>getVaultData\<close> with the password of a \<open>storeVaultData\<close> that returned, on
  the store it left, returns the value of the vault that was stored; that value belongs
  to no other vault; and \<open>storeVaultData\<close> returns whenever key derivation does.
\<close>

theorem vault_round_trip:
  "(cipherInverts L \<and> encryptData L d P r = Inr (E, r1) \<longrightarrow>
      decryptData L (envelopeJson E) P = Inr d) \<and>
   (cipherInverts L \<and> jsonInverts L \<and> storeVaultData L V P prefs r = Inr (prefs', r') \<longrightarrow>
      getVaultData L P prefs' = Inr (vaultJson V)) \<and>
   (\<forall>W. vaultJson W = vaultJson V \<longrightarrow> W = V) \<and>
   (kdfReturns L \<longrightarrow> (\<exists>prefs' r'. storeVaultData L V P prefs r = Inr (prefs', r')))"
proof (intro conjI impI allI)
  assume "cipherInverts L \<and> encryptData L d P r = Inr (E, r1)"
  then show "decryptData L (envelopeJson E) P = Inr d"
    using decrypt_encrypt[of L d P r E r1] by simp
next
  assume a: "cipherInverts L \<and> jsonInverts L \<and>
      storeVaultData L V P prefs r = Inr (prefs', r')"
  show "getVaultData L P prefs' = Inr (vaultJson V)"
    by (rule open_sealed[OF a[THEN conjunct1] a[THEN conjunct2, THEN conjunct1]
          a[THEN conjunct2, THEN conjunct2] refl])
next
  fix W assume "vaultJson W = vaultJson V"
  then show "W = V" by (rule vaultJson_inj)
next
  assume "kdfReturns L"
  then show "\<exists>prefs' r'. storeVaultData L V P prefs r = Inr (prefs', r')"
    by (rule storeVaultData_succeeds)
qed

theorem vault_round_trip_witness:
  "cipherInverts toyLib \<and> jsonInverts toyLib \<and> kdfReturns toyLib \<and>
   (\<exists>E r1.
      encryptData toyLib ''secret'' ''correct-horse-battery'' tape = Inr (E, r1) \<and>
      decryptData toyLib (envelopeJson E) ''correct-horse-battery'' = Inr ''secret'') \<and>
   (\<exists>prefs' r'.
      storeVaultData toyLib sampleVault ''correct-horse-battery'' Map.empty tape
        = Inr (prefs', r') \<and>
      getVaultData toyLib ''correct-horse-battery'' prefs' = Inr (vaultJson sampleVault)) \<and>
   entries sampleVault \<noteq> []"
proof -
  obtain E r1 where
    e: "encryptData toyLib ''secret'' ''correct-horse-battery'' tape = Inr (E, r1)"
    using encryptData_succeeds[OF toy_kdfReturns] by blast
  obtain prefs' r' where
    s: "storeVaultData toyLib sampleVault ''correct-horse-battery'' Map.empty tape
          = Inr (prefs', r')"
    using storeVaultData_succeeds[OF toy_kdfReturns] by blast
  note t = vault_round_trip[of toyLib "''secret''" "''correct-horse-battery''" tape E r1
      sampleVault Map.empty prefs' r']
  have "decryptData toyLib (envelopeJson E) ''correct-horse-battery'' = Inr ''secret''"
    using t toy_cipherInverts e by simp
  with e have 1: "\<exists>E r1.
      encryptData toyLib ''secret'' ''correct-horse-battery'' tape = Inr (E, r1) \<and>
      decryptData toyLib (envelopeJson E) ''correct-horse-battery'' = Inr ''secret''"
    by blast
  have "getVaultData toyLib ''correct-horse-battery'' prefs' = Inr (vaultJson sampleVault)"
    using t toy_cipherInverts toy_jsonInverts s by simp
  with s have 2: "\<exists>prefs' r'.
      storeVaultData toyLib sampleVault ''correct-horse-battery'' Map.empty tape
        = Inr (prefs', r') \<and>
      getVaultData toyLib ''correct-horse-battery'' prefs' = Inr (vaultJson sampleVault)"
    by blast
  have 3: "entries sampleVault \<noteq> []" by (simp add: sampleVault_def)
  show ?thesis
    by (intro conjI toy_cipherInverts toy_jsonInverts toy_kdfReturns 1 2 3)
qed






text \<open>
  Both fields of an envelope are results of the library's random call, the second on the
  state the first has left.
\<close>

lemma encryptData_draws:
  assumes "encryptData L d P r = Inr (E, r')"
  shows "salt E = fst (WordArray_random L 32 r) \<and>
     iv E = fst (WordArray_random L 12 (snd (WordArray_random L 32 r)))"
  using encryptData_Inr[OF assms] by (auto simp: generateSalt_def generateIV_def)

text \<open>With a constant tape two calls of the small library return the same salt and IV.\<close>

lemma constant_tape_repeats:
  assumes "encryptData toyLib d P (sconst b) = Inr (E1, r1)"
    "encryptData toyLib d P r1 = Inr (E2, r2)"
  shows "salt E2 = salt E1 \<and> iv E2 = iv E1"
proof -
  have c: "sdrop n (sconst b) = sconst b" for n
    by (induction n) simp_all
  have r: "r1 = sconst b"
    using assms(1)
    by (auto simp: encryptData_def generateSalt_def generateIV_def toyLib_def toyRandom_def
        toyEncrypt_def c Let_def split: sum.splits)
  show ?thesis
    using encryptData_draws[OF assms(1)] encryptData_draws[OF assms(2)] unfolding r by simp
qed

end
